theory Spec2Isabelle
  imports Complex_Main "HOL-Library.Product_Lexorder"
begin

section \<open>Strings and the chunker\<close>

text \<open>
  A Python \<open>str\<close> is a sequence of Unicode code points; it is modelled as a list of
  natural numbers, one per code point. \<open>isspace\<close> is the set of code points that
  \<open>str.split()\<close> (called without a separator) and \<open>str.strip()\<close> treat as white space.
\<close>

type_synonym pystr = "nat list"

definition isspace :: "nat \<Rightarrow> bool" where
  "isspace c \<longleftrightarrow>
     (9 \<le> c \<and> c \<le> 13) \<or> (28 \<le> c \<and> c \<le> 32) \<or> c = 133 \<or> c = 160 \<or> c = 5760 \<or>
     (8192 \<le> c \<and> c \<le> 8202) \<or> c = 8232 \<or> c = 8233 \<or> c = 8239 \<or> c = 8287 \<or> c = 12288"

text \<open>Readable literals for concrete inputs: the code points of an ASCII literal.\<close>

definition str :: "string \<Rightarrow> pystr" where
  "str s = map of_char s"

text \<open>
  The exceptions the engine can raise: \<open>ValueError\<close> (from \<open>range\<close>, \<open>np.vstack\<close> and
  \<open>np.dot\<close>), \<open>ReadError\<close> (\<open>open\<close>/\<open>read\<close> failing with an \<open>OSError\<close> or a decoding error),
  \<open>OracleError\<close> (the embedding model's \<open>encode\<close> failing) and \<open>IndexError\<close>.
\<close>

datatype error = ValueError | ReadError | OracleError | IndexError

text \<open>
  \<open>text.split()\<close>: maximal runs of non-space code points, in order; \<open>cur\<close> is the word
  being read.
\<close>

fun split_acc :: "pystr \<Rightarrow> pystr \<Rightarrow> pystr list" where
  "split_acc cur [] = (if cur = [] then [] else [cur])"
| "split_acc cur (c # cs) =
     (if isspace c then (if cur = [] then split_acc [] cs else cur # split_acc [] cs)
      else split_acc (cur @ [c]) cs)"

definition py_split :: "pystr \<Rightarrow> pystr list" where
  "py_split text = split_acc [] text"

text \<open>\<open>" ".join(ws)\<close>: the words separated by one space (code point 32).\<close>

fun join_sp :: "pystr list \<Rightarrow> pystr" where
  "join_sp [] = []"
| "join_sp [w] = w"
| "join_sp (w # v # ws) = w @ [32] @ join_sp (v # ws)"

text \<open>
  \<open>range(i, n, step)\<close> for a positive step. Python raises \<open>ValueError\<close> for step 0 and the
  range is empty for a negative step when \<open>i \<le> n\<close>; the caller below decides these two
  cases before it comes here.
\<close>

function py_range :: "nat \<Rightarrow> nat \<Rightarrow> nat \<Rightarrow> nat list" where
  "py_range i n step = (if step = 0 \<or> n \<le> i then [] else i # py_range (i + step) n step)"
  by pat_completeness auto
termination
  by (relation "measure (\<lambda>(i, n, step). n - i)") auto

declare py_range.simps [simp del]

text \<open>
  \<open>_chunk_text(text, chunk_size)\<close>: the slice \<open>words[i:i + chunk_size]\<close> is
  \<open>take chunk_size (drop i words)\<close>.
\<close>

definition CHUNK_SIZE :: int where
  "CHUNK_SIZE = 150"

definition chunk_text :: "pystr \<Rightarrow> int \<Rightarrow> error + pystr list" where
  "chunk_text text chunk_size =
     (let words = py_split text in
      if chunk_size = 0 then Inl ValueError
      else if chunk_size < 0 then Inr []
      else Inr (map (\<lambda>i. join_sp (take (nat chunk_size) (drop i words)))
                  (py_range 0 (length words) (nat chunk_size))))"

text \<open>\<open>chunk.strip()\<close>: white space removed at both ends.\<close>

definition py_strip :: "pystr \<Rightarrow> pystr" where
  "py_strip s = rev (dropWhile isspace (rev (dropWhile isspace s)))"

text \<open>\<open>s.endswith(suffix)\<close>.\<close>

definition endswith :: "pystr \<Rightarrow> pystr \<Rightarrow> bool" where
  "endswith s suffix \<longleftrightarrow>
     length suffix \<le> length s \<and> drop (length s - length suffix) s = suffix"

section \<open>Python dictionaries\<close>

text \<open>
  A \<open>dict\<close> is an association list with distinct keys in insertion order: assigning to a
  key that is present keeps its position, assigning to a new key appends it.
\<close>

fun dict_set :: "('k \<times> 'v) list \<Rightarrow> 'k \<Rightarrow> 'v \<Rightarrow> ('k \<times> 'v) list" where
  "dict_set [] k v = [(k, v)]"
| "dict_set ((k', v') # kvs) k v =
     (if k' = k then (k, v) # kvs else (k', v') # dict_set kvs k v)"

text \<open>\<open>dict(pairs)\<close>.\<close>

definition dict_of :: "('k \<times> 'v) list \<Rightarrow> ('k \<times> 'v) list" where
  "dict_of pairs = fold (\<lambda>(k, v) d. dict_set d k v) pairs []"

text \<open>\<open>k in d\<close> and \<open>d.get(k)\<close>.\<close>

definition dict_contains :: "('k \<times> 'v) list \<Rightarrow> 'k \<Rightarrow> bool" where
  "dict_contains d k \<longleftrightarrow> k \<in> set (map fst d)"

definition dict_get :: "('k \<times> 'v) list \<Rightarrow> 'k \<Rightarrow> 'v option" where
  "dict_get d k = map_of d k"

section \<open>The store\<close>

text \<open>
  An embedding is a vector of finite \<open>float32\<close> numbers, modelled as the list of their
  values. The store keeps the vector itself, since
  \<open>np.frombuffer(emb.tobytes(), dtype=np.float32)\<close> gives the vector back unchanged.
\<close>

type_synonym vec = "real list"

type_synonym digest = pystr

text \<open>A row of table \<open>documents\<close>.\<close>

record row =
  r_id :: nat
  r_source :: pystr
  r_chunk :: pystr
  r_embedding :: vec
  r_chunk_hash :: digest

text \<open>
  The database: the rows of \<open>documents\<close> in the order a full scan returns them (by
  ascending \<open>id\<close>), the high-water mark that \<open>AUTOINCREMENT\<close> keeps in \<open>sqlite_sequence\<close>,
  and the rows of \<open>files_meta\<close> (\<open>file\<close>, \<open>sha1\<close>).
\<close>

record store =
  documents :: "row list"
  seq :: nat
  files_meta :: "(pystr \<times> digest) list"

definition empty_store :: store where
  "empty_store = \<lparr>documents = [], seq = 0, files_meta = []\<rparr>"

text \<open>
  \<open>INSERT INTO documents (source, chunk, embedding, chunk_hash) VALUES (?, ?, ?, ?)\<close>:
  the new \<open>id\<close> is one more than the largest id the table has ever held.
\<close>

definition next_id :: "store \<Rightarrow> nat" where
  "next_id st = Suc (fold max (map r_id (documents st)) (seq st))"

definition insert_document :: "store \<Rightarrow> pystr \<Rightarrow> pystr \<Rightarrow> vec \<Rightarrow> digest \<Rightarrow> store" where
  "insert_document st source chunk emb chunk_hash =
     st\<lparr>documents := documents st @
           [\<lparr>r_id = next_id st, r_source = source, r_chunk = chunk,
             r_embedding = emb, r_chunk_hash = chunk_hash\<rparr>],
        seq := next_id st\<rparr>"

text \<open>\<open>DELETE FROM documents WHERE source = ?\<close>.\<close>

definition delete_documents :: "store \<Rightarrow> pystr \<Rightarrow> store" where
  "delete_documents st source =
     st\<lparr>documents := filter (\<lambda>r. r_source r \<noteq> source) (documents st)\<rparr>"

text \<open>\<open>INSERT OR REPLACE INTO files_meta (file, sha1) VALUES (?, ?)\<close>.\<close>

definition meta_insert_or_replace :: "store \<Rightarrow> pystr \<Rightarrow> digest \<Rightarrow> store" where
  "meta_insert_or_replace st file sha =
     st\<lparr>files_meta := filter (\<lambda>(g, d). g \<noteq> file) (files_meta st) @ [(file, sha)]\<rparr>"

text \<open>\<open>UPDATE files_meta SET sha1=? WHERE file=?\<close>.\<close>

definition meta_update :: "store \<Rightarrow> pystr \<Rightarrow> digest \<Rightarrow> store" where
  "meta_update st file sha =
     st\<lparr>files_meta := map (\<lambda>(g, d). if g = file then (g, sha) else (g, d)) (files_meta st)\<rparr>"

text \<open>\<open>DELETE FROM files_meta WHERE file=?\<close>.\<close>

definition meta_delete :: "store \<Rightarrow> pystr \<Rightarrow> store" where
  "meta_delete st file =
     st\<lparr>files_meta := filter (\<lambda>(g, d). g \<noteq> file) (files_meta st)\<rparr>"

section \<open>The engine\<close>

text \<open>
  The in-memory embedding matrix: a two-dimensional array with its shape, so that the
  zero-row matrix still has a column count.
\<close>

record matrix =
  nrows :: nat
  ncols :: nat
  mrows :: "vec list"

text \<open>\<open>np.zeros((n, d))\<close>.\<close>

definition zeros :: "nat \<Rightarrow> nat \<Rightarrow> matrix" where
  "zeros n d = \<lparr>nrows = n, ncols = d, mrows = replicate n (replicate d 0)\<rparr>"

text \<open>
  \<open>np.vstack(vs)\<close> for a non-empty list of one-dimensional arrays: they must all have the
  length of the first one.
\<close>

definition vstack :: "vec list \<Rightarrow> error + matrix" where
  "vstack vs =
     (if list_all (\<lambda>v. length v = length (hd vs)) vs
      then Inr \<lparr>nrows = length vs, ncols = length (hd vs), mrows = vs\<rparr>
      else Inl ValueError)"

text \<open>
  A floating-point number, as a similarity score is one: a finite value, an infinity or
  NaN. (The sign of a zero is not kept.)
\<close>

datatype score = Fin real | PInf | NInf | NaN

text \<open>
  The order in which \<open>numpy\<close> sorts floating-point numbers: by value, with NaN after
  everything else. \<open>np_key\<close> maps a score to its place in that order.
\<close>

fun np_key :: "score \<Rightarrow> nat \<times> real" where
  "np_key NInf = (0, 0)"
| "np_key (Fin r) = (1, r)"
| "np_key PInf = (2, 0)"
| "np_key NaN = (3, 0)"

text \<open>The comparison \<open>a >= b\<close> of two floating-point numbers: false when either is NaN.\<close>

definition float_ge :: "score \<Rightarrow> score \<Rightarrow> bool" where
  "float_ge a b \<longleftrightarrow> a \<noteq> NaN \<and> b \<noteq> NaN \<and> np_key b \<le> np_key a"

text \<open>One entry of a query's result list.\<close>

record result =
  res_chunk :: pystr
  res_source :: pystr
  res_score :: score

text \<open>
  What the engine takes from outside: the embedding model (\<open>encode\<close>, \<open>None\<close> when the call
  raises, and the model's output dimension), the two digests of \<open>hashlib\<close>, \<open>str.lower\<close>,
  \<open>numpy\<close>'s \<open>argsort\<close>, whose order among equal keys is left open (see \<open>argsort_ok\<close>), and
  the \<open>float32\<close> arithmetic of \<open>numpy\<close> that lines 197 and 198 use, with its rounding,
  overflow and underflow: one entry of \<open>np.linalg.norm(embeddings, axis=1)\<close> (\<open>row_norm\<close>),
  \<open>np.linalg.norm(q_emb)\<close> (\<open>vec_norm\<close>), the addition of \<open>1e-12\<close> (\<open>add_eps\<close>), the product
  (\<open>np_mul\<close>), one entry of \<open>np.dot(embeddings, q_emb)\<close> (\<open>np_dot\<close>) and the quotient
  (\<open>np_div\<close>). Nothing is assumed of this arithmetic in the statements that hold for
  every environment.
\<close>

record env =
  encode :: "pystr \<Rightarrow> vec option"
  encode_dim :: nat
  sha1 :: "pystr \<Rightarrow> digest"
  md5 :: "pystr \<Rightarrow> digest"
  lower :: "pystr \<Rightarrow> pystr"
  argsort :: "score list \<Rightarrow> nat list"
  row_norm :: "vec \<Rightarrow> score"
  vec_norm :: "vec \<Rightarrow> score"
  add_eps :: "score \<Rightarrow> score"
  np_mul :: "score \<Rightarrow> score \<Rightarrow> score"
  np_dot :: "vec \<Rightarrow> vec \<Rightarrow> score"
  np_div :: "score \<Rightarrow> score \<Rightarrow> score"

text \<open>
  What \<open>argsort\<close> promises: a permutation of the indices that lists the scores in
  \<open>numpy\<close>'s ascending order.
\<close>

definition argsort_ok :: "(score list \<Rightarrow> nat list) \<Rightarrow> bool" where
  "argsort_ok f \<longleftrightarrow>
     (\<forall>xs. distinct (f xs) \<and> set (f xs) = {0..<length xs} \<and>
           sorted (map (\<lambda>i. np_key (xs ! i)) (f xs)))"

text \<open>One such function: the stable sort of the indices.\<close>

definition np_argsort :: "score list \<Rightarrow> nat list" where
  "np_argsort xs = sort_key (\<lambda>i. np_key (xs ! i)) [0..<length xs]"

text \<open>
  The document folder: the names \<open>os.listdir\<close> returns, and what reading a file of that
  name as UTF-8 text returns (\<open>None\<close> when \<open>open\<close> or \<open>read\<close> raises).
\<close>

record folder =
  listdir :: "pystr list"
  read_text :: "pystr \<Rightarrow> pystr option"

text \<open>
  The engine's state: the database as the connection sees it (\<open>working\<close>, with the
  changes of an open transaction) and as it is on disk (\<open>committed\<close>), the in-memory
  index, the query cache, and a count of the calls made to the embedding model.
  When an exception ends the run, the open transaction is never committed: what is
  left on disk is \<open>committed\<close>.
\<close>

record rag =
  committed :: store
  working :: store
  chunks :: "pystr list"
  sources :: "pystr list"
  embeddings :: matrix
  query_cache :: "digest \<rightharpoonup> result list"
  encode_calls :: nat

text \<open>\<open>self.conn.commit()\<close>.\<close>

definition commit :: "rag \<Rightarrow> rag" where
  "commit s = s\<lparr>committed := working s\<rparr>"

text \<open>How a call without a result ends: it returns, or it raises.\<close>

datatype outcome = Done | Raised error

section \<open>Indexing\<close>

text \<open>The loop of \<open>_index_file\<close> over the chunks.\<close>

fun index_chunks :: "env \<Rightarrow> pystr \<Rightarrow> pystr list \<Rightarrow> rag \<Rightarrow> outcome \<times> rag" where
  "index_chunks e filename [] s = (Done, s)"
| "index_chunks e filename (c # cs) s =
     (let chunk = py_strip c in
      if chunk = [] then index_chunks e filename cs s
      else
        (case encode e chunk of
           None \<Rightarrow> (Raised OracleError, s\<lparr>encode_calls := Suc (encode_calls s)\<rparr>)
         | Some emb \<Rightarrow>
             index_chunks e filename cs
               (s\<lparr>encode_calls := Suc (encode_calls s),
                  working := insert_document (working s) filename chunk emb (sha1 e chunk)\<rparr>)))"

definition index_file :: "env \<Rightarrow> folder \<Rightarrow> pystr \<Rightarrow> rag \<Rightarrow> outcome \<times> rag" where
  "index_file e fd filename s =
     (case read_text fd filename of
        None \<Rightarrow> (Raised ReadError, s)
      | Some text \<Rightarrow>
          (case chunk_text text CHUNK_SIZE of
             Inl err \<Rightarrow> (Raised err, s)
           | Inr cs \<Rightarrow>
               (case index_chunks e filename cs s of
                  (Raised err, s') \<Rightarrow> (Raised err, s')
                | (Done, s') \<Rightarrow> (Done, commit s'))))"

text \<open>The file names the pass looks at: those ending in \<open>.txt\<close> or \<open>.md\<close>, in any case.\<close>

definition eligible :: "env \<Rightarrow> pystr \<Rightarrow> bool" where
  "eligible e f \<longleftrightarrow> endswith (lower e f) (str ''.txt'') \<or> endswith (lower e f) (str ''.md'')"

text \<open>The loop that fills \<open>current_meta\<close>.\<close>

fun compute_meta ::
  "env \<Rightarrow> folder \<Rightarrow> pystr list \<Rightarrow> (pystr \<times> digest) list \<Rightarrow> error + (pystr \<times> digest) list" where
  "compute_meta e fd [] current_meta = Inr current_meta"
| "compute_meta e fd (fname # files) current_meta =
     (case read_text fd fname of
        None \<Rightarrow> Inl ReadError
      | Some content \<Rightarrow> compute_meta e fd files (dict_set current_meta fname (sha1 e content)))"

text \<open>The body of the loop "add new or updated", for one file.\<close>

definition sync_file ::
  "env \<Rightarrow> folder \<Rightarrow> (pystr \<times> digest) list \<Rightarrow> pystr \<Rightarrow> digest \<Rightarrow> rag \<Rightarrow> outcome \<times> rag" where
  "sync_file e fd stored fname sha s =
     (if \<not> dict_contains stored fname then
        (case index_file e fd fname s of
           (Raised err, s') \<Rightarrow> (Raised err, s')
         | (Done, s') \<Rightarrow>
             (Done, commit (s'\<lparr>working := meta_insert_or_replace (working s') fname sha\<rparr>)))
      else if dict_get stored fname \<noteq> Some sha then
        (case index_file e fd fname
                (commit (s\<lparr>working := delete_documents (working s) fname\<rparr>)) of
           (Raised err, s') \<Rightarrow> (Raised err, s')
         | (Done, s') \<Rightarrow> (Done, commit (s'\<lparr>working := meta_update (working s') fname sha\<rparr>)))
      else (Done, s))"

fun sync_files ::
  "env \<Rightarrow> folder \<Rightarrow> (pystr \<times> digest) list \<Rightarrow> (pystr \<times> digest) list \<Rightarrow> rag \<Rightarrow> outcome \<times> rag" where
  "sync_files e fd stored [] s = (Done, s)"
| "sync_files e fd stored ((fname, sha) # items) s =
     (case sync_file e fd stored fname sha s of
        (Raised err, s') \<Rightarrow> (Raised err, s')
      | (Done, s') \<Rightarrow> sync_files e fd stored items s')"

text \<open>
  The loop "delete removed". Python iterates over a set; the model takes the names in
  the order of the ledger (the deletions of different files commute).
\<close>

fun delete_removed :: "pystr list \<Rightarrow> rag \<Rightarrow> rag" where
  "delete_removed [] s = s"
| "delete_removed (fname # removed) s =
     delete_removed removed
       (commit (s\<lparr>working := meta_delete (delete_documents (working s) fname) fname\<rparr>))"

definition load_from_db :: "env \<Rightarrow> rag \<Rightarrow> outcome \<times> rag" where
  "load_from_db e s =
     (let rows = documents (working s);
          emb_list = map r_embedding rows;
          s1 = s\<lparr>chunks := map r_chunk rows, sources := map r_source rows\<rparr>
      in if length emb_list > 0 then
           (case vstack emb_list of
              Inl err \<Rightarrow> (Raised err, s1)
            | Inr m \<Rightarrow> (Done, s1\<lparr>embeddings := m\<rparr>))
         else (Done, s1\<lparr>embeddings := zeros 0 (encode_dim e)\<rparr>))"

text \<open>Lines 107 to 118: the eligible files and the digest of each one's content.\<close>

definition scan_folder :: "env \<Rightarrow> folder \<Rightarrow> error + (pystr \<times> digest) list" where
  "scan_folder e fd = compute_meta e fd (filter (eligible e) (listdir fd)) []"

definition sync_index_with_files :: "env \<Rightarrow> folder \<Rightarrow> rag \<Rightarrow> outcome \<times> rag" where
  "sync_index_with_files e fd s =
     (case scan_folder e fd of
        Inl err \<Rightarrow> (Raised err, s)
      | Inr current_meta \<Rightarrow>
          (let stored = dict_of (files_meta (working s)) in
           case sync_files e fd stored current_meta s of
             (Raised err, s') \<Rightarrow> (Raised err, s')
           | (Done, s') \<Rightarrow>
               (let removed = filter (\<lambda>f. \<not> dict_contains current_meta f) (map fst stored)
                in load_from_db e (delete_removed removed s'))))"

text \<open>
  The constructor, on the database found at \<open>db_path\<close> (\<open>empty_store\<close> when the file is
  new: \<open>CREATE TABLE IF NOT EXISTS\<close> changes nothing else).
\<close>

definition fresh :: "env \<Rightarrow> store \<Rightarrow> rag" where
  "fresh e db =
     \<lparr>committed = db, working = db, chunks = [], sources = [],
      embeddings = zeros 0 (encode_dim e), query_cache = Map.empty, encode_calls = 0\<rparr>"

definition init :: "env \<Rightarrow> folder \<Rightarrow> store \<Rightarrow> outcome \<times> rag" where
  "init e fd db = sync_index_with_files e fd (fresh e db)"

section \<open>Querying\<close>

text \<open>The slice \<open>xs[start:]\<close>: a negative \<open>start\<close> counts from the end.\<close>

definition slice_from :: "int \<Rightarrow> 'a list \<Rightarrow> 'a list" where
  "slice_from start xs =
     (let n = int (length xs);
          st = (if start < 0 then max (n + start) 0 else min start n)
      in drop (nat st) xs)"

text \<open>
  Lines 197 and 198: the scores of all rows against the query vector. The constant
  \<open>1e-12\<close> is added to the norm of the query vector, and the sum multiplies the norm of
  each row.
\<close>

definition similarities :: "env \<Rightarrow> matrix \<Rightarrow> vec \<Rightarrow> score list" where
  "similarities e m q_emb =
     (let norms = map (\<lambda>v. np_mul e (row_norm e v) (add_eps e (vec_norm e q_emb))) (mrows m)
      in map2 (\<lambda>v n. np_div e (np_dot e v q_emb) n) (mrows m) norms)"

text \<open>The loop that builds the results; an index out of range raises.\<close>

fun assemble :: "pystr list \<Rightarrow> pystr list \<Rightarrow> score list \<Rightarrow> nat list \<Rightarrow> error + result list" where
  "assemble cs ss sims [] = Inr []"
| "assemble cs ss sims (idx # idxs) =
     (if idx < length cs \<and> idx < length ss \<and> idx < length sims then
        (case assemble cs ss sims idxs of
           Inl err \<Rightarrow> Inl err
         | Inr rs \<Rightarrow>
             Inr (\<lparr>res_chunk = cs ! idx, res_source = ss ! idx, res_score = sims ! idx\<rparr> # rs))
      else Inl IndexError)"

definition query :: "env \<Rightarrow> pystr \<Rightarrow> int \<Rightarrow> rag \<Rightarrow> (error + result list) \<times> rag" where
  "query e question k s =
     (let q_hash = md5 e question in
      case query_cache s q_hash of
        Some cached \<Rightarrow> (Inr cached, s)
      | None \<Rightarrow>
          if length (chunks s) = 0 then (Inr [], s)
          else
            (let s1 = s\<lparr>encode_calls := Suc (encode_calls s)\<rparr> in
             case encode e question of
               None \<Rightarrow> (Inl OracleError, s1)
             | Some q_emb \<Rightarrow>
                 if ncols (embeddings s) \<noteq> length q_emb then (Inl ValueError, s1)
                 else
                   (let sims = similarities e (embeddings s) q_emb;
                        idxs = rev (slice_from (- k) (argsort e sims))
                    in case assemble (chunks s) (sources s) sims idxs of
                         Inl err \<Rightarrow> (Inl err, s1)
                       | Inr results \<Rightarrow>
                           (Inr results,
                            s1\<lparr>query_cache := (query_cache s)(q_hash \<mapsto> results)\<rparr>))))"

definition clear_query_cache :: "rag \<Rightarrow> rag" where
  "clear_query_cache s = s\<lparr>query_cache := Map.empty\<rparr>"

section \<open>Notions used in the statements\<close>

text \<open>
  The ledger as a mapping from file names to digests: what \<open>dict(cursor.fetchall())\<close>
  looks up in the rows of \<open>files_meta\<close> (a later row of the same name would win).
\<close>

definition ledger :: "store \<Rightarrow> pystr \<rightharpoonup> digest" where
  "ledger st = map_of (rev (files_meta st))"

text \<open>
  The three parallel structures of the in-memory index are aligned: as many chunk texts
  as source labels as matrix rows, and every row as long as the matrix is wide.
\<close>

definition aligned :: "rag \<Rightarrow> bool" where
  "aligned s \<longleftrightarrow>
     length (chunks s) = length (sources s) \<and>
     nrows (embeddings s) = length (chunks s) \<and>
     length (mrows (embeddings s)) = length (chunks s) \<and>
     list_all (\<lambda>v. length v = ncols (embeddings s)) (mrows (embeddings s))"

text \<open>The result entry that the loop of \<open>query\<close> builds for row \<open>i\<close>.\<close>

definition hit :: "rag \<Rightarrow> score list \<Rightarrow> nat \<Rightarrow> result" where
  "hit s sims i = \<lparr>res_chunk = chunks s ! i, res_source = sources s ! i, res_score = sims ! i\<rparr>"

text \<open>A word, as \<open>split\<close> returns it: not empty and free of white space.\<close>

definition word :: "pystr \<Rightarrow> bool" where
  "word w \<longleftrightarrow> w \<noteq> [] \<and> (\<forall>c \<in> set w. \<not> isspace c)"

section \<open>Concrete inputs\<close>

text \<open>
  The arithmetic of the concrete inputs: exact on the reals, with the special values of
  IEEE 754 (\<open>0 / 0\<close>, an infinity divided by an infinity and an infinity times zero are
  NaN; \<open>x / 0\<close> is an infinity with the sign of \<open>x\<close>). It does not round and does not
  overflow: where \<open>float32\<close> gives \<open>1.0\<close> for \<open>1 / (1 + 1e-12)\<close>, it gives
  \<open>10^12 / (10^12 + 1)\<close>. On a zero vector it gives what \<open>float32\<close> gives: the norm 0, the
  dot product 0, the product 0 and the quotient NaN.
\<close>

definition norm2 :: "vec \<Rightarrow> real" where
  "norm2 v = sqrt (sum_list (map (\<lambda>x. x * x) v))"

definition dot :: "vec \<Rightarrow> vec \<Rightarrow> real" where
  "dot u v = sum_list (map2 (*) u v)"

definition np_divide :: "real \<Rightarrow> real \<Rightarrow> score" where
  "np_divide a b =
     (if b \<noteq> 0 then Fin (a / b) else if a = 0 then NaN else if 0 < a then PInf else NInf)"

definition score_sgn :: "score \<Rightarrow> int" where
  "score_sgn x =
     (case x of Fin a \<Rightarrow> (if a < 0 then - 1 else if a = 0 then 0 else 1)
      | PInf \<Rightarrow> 1 | NInf \<Rightarrow> - 1 | NaN \<Rightarrow> 0)"

definition signed_inf :: "int \<Rightarrow> score" where
  "signed_inf sg = (if sg = 0 then NaN else if 0 < sg then PInf else NInf)"

fun exact_add_eps :: "score \<Rightarrow> score" where
  "exact_add_eps (Fin a) = Fin (a + 1 / 10 ^ 12)"
| "exact_add_eps x = x"

fun exact_mul :: "score \<Rightarrow> score \<Rightarrow> score" where
  "exact_mul NaN y = NaN"
| "exact_mul x NaN = NaN"
| "exact_mul (Fin a) (Fin b) = Fin (a * b)"
| "exact_mul x y = signed_inf (score_sgn x * score_sgn y)"

fun exact_div :: "score \<Rightarrow> score \<Rightarrow> score" where
  "exact_div NaN y = NaN"
| "exact_div x NaN = NaN"
| "exact_div (Fin a) (Fin b) = np_divide a b"
| "exact_div (Fin a) y = Fin 0"
| "exact_div x (Fin b) = signed_inf (score_sgn x * (if b < 0 then - 1 else 1))"
| "exact_div x y = NaN"

text \<open>
  A small world on which the statements below are run: an embedding model with two
  dimensions that fails on the text \<open>fail\<close>, returns the zero vector for the text \<open>zero\<close>
  and a unit vector for every other text; digests that are the text itself; file names
  already in lower case; the stable \<open>argsort\<close>; and the arithmetic above.
\<close>

definition demo_env :: env where
  "demo_env =
     \<lparr>encode = (\<lambda>t. if t = str ''fail'' then None
                     else if t = str ''zero'' then Some [0, 0]
                     else if even (length t) then Some [1, 0] else Some [0, 1]),
      encode_dim = 2, sha1 = (\<lambda>t. t), md5 = (\<lambda>t. t), lower = (\<lambda>t. t),
      argsort = np_argsort,
      row_norm = (\<lambda>v. Fin (norm2 v)), vec_norm = (\<lambda>v. Fin (norm2 v)),
      add_eps = exact_add_eps, np_mul = exact_mul,
      np_dot = (\<lambda>u v. Fin (dot u v)), np_div = exact_div\<rparr>"

text \<open>A folder with two eligible files and a picture.\<close>

definition demo_folder :: folder where
  "demo_folder =
     \<lparr>listdir = [str ''a.txt'', str ''b.md'', str ''c.png''],
      read_text = map_of [(str ''a.txt'', str ''four''), (str ''b.md'', str ''one two''),
                          (str ''c.png'', str ''x'')]\<rparr>"

text \<open>The engine after its construction on that folder and a new database.\<close>

definition demo_store :: store where
  "demo_store =
     \<lparr>documents =
        [\<lparr>r_id = 1, r_source = str ''a.txt'', r_chunk = str ''four'',
          r_embedding = [1, 0], r_chunk_hash = str ''four''\<rparr>,
         \<lparr>r_id = 2, r_source = str ''b.md'', r_chunk = str ''one two'',
          r_embedding = [0, 1], r_chunk_hash = str ''one two''\<rparr>],
      seq = 2,
      files_meta = [(str ''a.txt'', str ''four''), (str ''b.md'', str ''one two'')]\<rparr>"

definition demo_rag :: rag where
  "demo_rag =
     \<lparr>committed = demo_store, working = demo_store,
      chunks = [str ''four'', str ''one two''], sources = [str ''a.txt'', str ''b.md''],
      embeddings = \<lparr>nrows = 2, ncols = 2, mrows = [[1, 0], [0, 1]]\<rparr>,
      query_cache = Map.empty, encode_calls = 2\<rparr>"

text \<open>The same folder after \<open>a.txt\<close> was edited, and after it was deleted.\<close>

definition edited_folder :: "pystr \<Rightarrow> folder" where
  "edited_folder content =
     \<lparr>listdir = [str ''a.txt'', str ''b.md'', str ''c.png''],
      read_text = map_of [(str ''a.txt'', content), (str ''b.md'', str ''one two''),
                          (str ''c.png'', str ''x'')]\<rparr>"

definition shrunk_folder :: folder where
  "shrunk_folder =
     \<lparr>listdir = [str ''b.md'', str ''c.png''],
      read_text = map_of [(str ''b.md'', str ''one two''), (str ''c.png'', str ''x'')]\<rparr>"

text \<open>
  The engine after its construction on the folder in which \<open>a.txt\<close> holds the text
  \<open>zero\<close>: the first stored embedding is the zero vector.
\<close>

definition zero_store :: store where
  "zero_store =
     \<lparr>documents =
        [\<lparr>r_id = 1, r_source = str ''a.txt'', r_chunk = str ''zero'',
          r_embedding = [0, 0], r_chunk_hash = str ''zero''\<rparr>,
         \<lparr>r_id = 2, r_source = str ''b.md'', r_chunk = str ''one two'',
          r_embedding = [0, 1], r_chunk_hash = str ''one two''\<rparr>],
      seq = 2,
      files_meta = [(str ''a.txt'', str ''zero''), (str ''b.md'', str ''one two'')]\<rparr>"

definition zero_rag :: rag where
  "zero_rag =
     \<lparr>committed = zero_store, working = zero_store,
      chunks = [str ''zero'', str ''one two''], sources = [str ''a.txt'', str ''b.md''],
      embeddings = \<lparr>nrows = 2, ncols = 2, mrows = [[0, 0], [0, 1]]\<rparr>,
      query_cache = Map.empty, encode_calls = 2\<rparr>"

text \<open>The definitions that running the engine on a concrete input unfolds.\<close>

lemmas demo_defs = demo_env_def demo_folder_def demo_store_def demo_rag_def edited_folder_def
  shrunk_folder_def zero_store_def zero_rag_def empty_store_def fresh_def

lemmas engine_defs = init_def sync_index_with_files_def scan_folder_def eligible_def endswith_def
  dict_of_def dict_contains_def dict_get_def sync_file_def index_file_def chunk_text_def
  CHUNK_SIZE_def py_split_def py_strip_def isspace_def py_range.simps insert_document_def
  next_id_def delete_documents_def meta_insert_or_replace_def meta_update_def meta_delete_def
  commit_def load_from_db_def vstack_def zeros_def str_def Let_def

lemmas query_defs = query_def similarities_def norm2_def dot_def np_divide_def slice_from_def
  np_argsort_def hit_def

section \<open>The chunker: words, windows and their count\<close>

lemma split_acc_nonspace:
  "\<forall>c \<in> set w. \<not> isspace c \<Longrightarrow> split_acc cur (w @ rest) = split_acc (cur @ w) rest"
  by (induction w arbitrary: cur) auto

lemma split_acc_words: "\<forall>c \<in> set cur. \<not> isspace c \<Longrightarrow> list_all word (split_acc cur xs)"
  by (induction cur xs rule: split_acc.induct) (auto simp: word_def)

lemma py_split_words: "list_all word (py_split t)"
  by (simp add: py_split_def split_acc_words)

lemma isspace_32: "isspace 32" by (simp add: isspace_def)

lemma split_acc_join:
  "list_all word ws \<Longrightarrow> \<forall>c \<in> set cur. \<not> isspace c \<Longrightarrow> cur @ join_sp ws \<noteq> [] \<Longrightarrow>
   split_acc cur (join_sp ws) = (if ws = [] then [cur] else (cur @ hd ws) # tl ws)"
proof (induction ws arbitrary: cur rule: join_sp.induct)
  case 1 then show ?case by simp
next
  case (2 w)
  then show ?case using split_acc_nonspace[of w cur "[]"] by (simp add: word_def)
next
  case (3 w v ws)
  have a: "split_acc cur (w @ 32 # join_sp (v # ws)) = split_acc (cur @ w) (32 # join_sp (v # ws))"
    using split_acc_nonspace[of w cur] 3 by (simp add: word_def)
  have w: "w \<noteq> []" using 3 by (simp add: word_def)
  have "split_acc [] (join_sp (v # ws)) = v # ws"
    using 3(1)[of "[]"] 3(2) by (cases ws) (auto simp: word_def)
  then show ?case using a w by (simp add: isspace_32)
qed

lemma py_split_join: "list_all word ws \<Longrightarrow> py_split (join_sp ws) = ws"
  unfolding py_split_def
  using split_acc_join[of ws "[]"]
  by (cases ws rule: join_sp.cases) (auto simp: word_def)

lemma div_add_step: "0 < s \<Longrightarrow> (x + s) div s = Suc (x div s)" for s x :: nat
  by simp

lemma py_range_length: "0 < W \<Longrightarrow> length (py_range i n W) = (n - i + W - 1) div W"
proof (induction i n W rule: py_range.induct)
  case (1 i n step)
  show ?case
  proof (cases "n \<le> i")
    case True
    then show ?thesis using 1(2) by (simp add: py_range.simps[of i n step])
  next
    case False
    have eq: "length (py_range i n step) = Suc (length (py_range (i + step) n step))"
      using 1(2) False by (simp add: py_range.simps[of i n step])
    have ih: "length (py_range (i + step) n step) = (n - (i + step) + step - 1) div step"
      using 1 False by simp
    show ?thesis
    proof (cases "n \<le> i + step")
      case True
      then have "(n - (i + step) + step - 1) div step = 0" using 1(2) by simp
      moreover have "(n - i + step - 1) div step = 1"
      proof -
        have A: "n - i + step - 1 = (n - i - 1) + step" using False by arith
        have B: "(n - i - 1) div step = 0" using True 1(2) False by simp
        have "(n - i + step - 1) div step = ((n - i - 1) + step) div step" by (simp only: A)
        also have "\<dots> = Suc ((n - i - 1) div step)" by (rule div_add_step[OF 1(2)])
        finally show ?thesis using B by simp
      qed
      ultimately show ?thesis using eq ih by simp
    next
      case far: False
      have A: "n - i + step - 1 = (n - (i + step) + step - 1) + step" using far by arith
      have "(n - i + step - 1) div step = Suc ((n - (i + step) + step - 1) div step)"
        unfolding A by (rule div_add_step[OF 1(2)])
      then show ?thesis using eq ih by simp
    qed
  qed
qed

lemma py_range_nth:
  "0 < W \<Longrightarrow> p < length (py_range i n W) \<Longrightarrow> py_range i n W ! p = i + p * W"
proof (induction i n W arbitrary: p rule: py_range.induct)
  case (1 i n step)
  show ?case
  proof (cases "n \<le> i")
    case True
    then show ?thesis using 1(3) by (simp add: py_range.simps[of i n step])
  next
    case False
    then have eq: "py_range i n step = i # py_range (i + step) n step"
      using 1(2) by (simp add: py_range.simps[of i n step])
    show ?thesis
    proof (cases p)
      case 0
      then show ?thesis by (simp add: eq)
    next
      case (Suc q)
      then have "q < length (py_range (i + step) n step)" using 1(3) eq by simp
      then have "py_range (i + step) n step ! q = i + step + q * step"
        using 1(1)[of q] False 1(2) by simp
      then show ?thesis using Suc eq by simp
    qed
  qed
qed

lemma py_range_concat:
  "0 < W \<Longrightarrow> concat (map (\<lambda>i. take W (drop i ws)) (py_range i (length ws) W)) = drop i ws"
proof (induction i "length ws" W rule: py_range.induct)
  case (1 i step)
  show ?case
  proof (cases "length ws \<le> i")
    case True
    then show ?thesis by (simp add: py_range.simps[of i "length ws" step])
  next
    case False
    then have "concat (map (\<lambda>i. take step (drop i ws)) (py_range i (length ws) step))
        = take step (drop i ws) @ drop (i + step) ws"
      using 1 by (simp add: py_range.simps[of i "length ws" step])
    also have "\<dots> = take step (drop i ws) @ drop step (drop i ws)"
      by (simp add: add.commute)
    also have "\<dots> = drop i ws"
      by (rule append_take_drop_id)
    finally show ?thesis .
  qed
qed

lemma py_range_bound:
  "0 < W \<Longrightarrow> j \<in> set (py_range i n W) \<Longrightarrow> j < n"
proof (induction i n W rule: py_range.induct)
  case (1 i n step)
  then show ?case
    by (cases "n \<le> i") (auto simp: py_range.simps[of i n step])
qed

lemma ceil_div_nat: "int ((n + w - 1) div w) = \<lceil>real n / real w\<rceil>" if "0 < w" for n w :: nat
proof -
  define q where "q = (n + w - 1) div w"
  have 1: "q * w \<le> n + w - 1" unfolding q_def by simp
  have 2: "n + w - 1 < (q + 1) * w" unfolding q_def using that
    by (metis Suc_eq_plus1 dividend_less_div_times mult.commute mult_Suc_right add.commute)
  have a: "n \<le> q * w" using 2 that by (simp add: algebra_simps) 
  have b: "n = 0 \<or> q * w < n + w" using 1 that by arith
  have "real n \<le> real q * real w" using a by (metis of_nat_le_iff of_nat_mult)
  then have u: "real n / real w \<le> real q" using that by (simp add: pos_divide_le_eq)
  have "real q * real w - real w < real n"
  proof (cases "n = 0")
    case True
    then have "q = 0" using that by (simp add: q_def)
    then show ?thesis using True that by simp
  next
    case False
    then have "q * w < n + w" using b by simp
    then have "real q * real w < real n + real w" by (metis of_nat_less_iff of_nat_mult of_nat_add)
    then show ?thesis by simp
  qed
  then have "(real q - 1) * real w < real n" by (simp add: algebra_simps)
  then have l: "real q - 1 < real n / real w" using that by (simp add: pos_less_divide_eq)
  have "\<lceil>real n / real w\<rceil> = int q"
    by (rule ceiling_unique) (use l u in simp_all)
  then show ?thesis by (simp add: q_def)
qed

lemma split_acc_spaces: "\<forall>c \<in> set t. isspace c \<Longrightarrow> split_acc [] t = []"
  by (induction t) auto

lemma chunk_nth_words:
  assumes "list_all word ws"
  shows "py_split (join_sp (take w (drop j ws))) = take w (drop j ws)"
  by (metis append_take_drop_id assms list_all_append py_split_join)

text \<open>
  Claim C3. For a window size \<open>W \<ge> 1\<close> the chunker returns, for a text of \<open>N\<close> words,
  exactly \<open>\<lceil>N / W\<rceil>\<close> chunks; every chunk but the last splits into exactly \<open>W\<close> words;
  the words of the chunks, concatenated in order, are the words of the text; and a text
  of white space only (or the empty text) gives no chunk.
\<close>

theorem chunk_text_windows:
  assumes "1 \<le> W"
  shows "\<exists>cs. chunk_text text W = Inr cs
     \<and> int (length cs) = \<lceil>real (length (py_split text)) / real_of_int W\<rceil>
     \<and> (\<forall>i. Suc i < length cs \<longrightarrow> length (py_split (cs ! i)) = nat W)
     \<and> concat (map py_split cs) = py_split text
     \<and> ((\<forall>c \<in> set text. isspace c) \<longrightarrow> cs = [])"
proof -
  define w where "w = nat W"
  define ws where "ws = py_split text"
  define cs where "cs = map (\<lambda>i. join_sp (take w (drop i ws))) (py_range 0 (length ws) w)"
  have w: "0 < w" "W = int w" using assms by (simp_all add: w_def)
  have words: "list_all word ws" by (simp add: ws_def py_split_words)
  have run: "chunk_text text W = Inr cs"
    using assms by (simp add: chunk_text_def cs_def ws_def w_def Let_def)
  have len: "length cs = (length ws + w - 1) div w"
    using py_range_length[OF w(1), of 0 "length ws"] by (simp add: cs_def)
  have count: "int (length cs) = \<lceil>real (length ws) / real_of_int W\<rceil>"
    using ceil_div_nat[OF w(1), of "length ws"] by (simp add: len w(2))
  have split_cs: "map py_split cs = map (\<lambda>i. take w (drop i ws)) (py_range 0 (length ws) w)"
    by (simp add: cs_def chunk_nth_words[OF words])
  have cat: "concat (map py_split cs) = ws"
    using py_range_concat[OF w(1), of ws 0] by (simp add: split_cs)
  have full: "length (py_split (cs ! i)) = w" if "Suc i < length cs" for i
  proof -
    have i: "i < length (py_range 0 (length ws) w)" using that by (simp add: cs_def)
    have nth: "py_range 0 (length ws) w ! i = i * w"
      using py_range_nth[OF w(1) i] by simp
    have "py_range 0 (length ws) w ! Suc i = Suc i * w"
      using py_range_nth[OF w(1), of "Suc i" 0 "length ws"] that by (simp add: cs_def)
    moreover have "py_range 0 (length ws) w ! Suc i \<in> set (py_range 0 (length ws) w)"
      using that by (simp add: cs_def)
    ultimately have "Suc i * w < length ws"
      using py_range_bound[OF w(1)] by metis
    then have "length (take w (drop (i * w) ws)) = w" by simp
    moreover have "py_split (cs ! i) = take w (drop (i * w) ws)"
      using i nth by (simp add: cs_def chunk_nth_words[OF words])
    ultimately show ?thesis by simp
  qed
  have blank: "cs = []" if "\<forall>c \<in> set text. isspace c"
    using split_acc_spaces[OF that] by (simp add: cs_def ws_def py_split_def py_range.simps)
  show ?thesis
    using run count full cat blank unfolding ws_def w_def by blast
qed

theorem chunk_text_windows_witness:
  "(1::int) \<le> 2
   \<and> chunk_text (str ''a b  c'') 2 = Inr [str ''a b'', str ''c'']
   \<and> int (length [str ''a b'', str ''c'']) = \<lceil>real (length (py_split (str ''a b  c''))) / real_of_int 2\<rceil>
   \<and> length (py_split ([str ''a b'', str ''c''] ! 0)) = nat 2
   \<and> concat (map py_split [str ''a b'', str ''c'']) = py_split (str ''a b  c'')"
proof -
  have run: "chunk_text (str ''a b  c'') 2 = Inr [str ''a b'', str ''c'']"
    by (simp add: chunk_text_def py_split_def str_def isspace_def py_range.simps)
  have "(1::int) \<le> 2" by simp
  from chunk_text_windows[OF this, of "str ''a b  c''"] run
  show ?thesis by auto
qed

section \<open>The in-memory index after a load\<close>

lemma outcome_pair_cases:
  obtains s' where "x = (Done, s')" | err s' where "x = (Raised err, s')"
  by (cases x; cases "fst x") auto

lemma load_from_db_done:
  assumes "load_from_db e s = (Done, s')"
  shows "chunks s' = map r_chunk (documents (working s))"
    and "sources s' = map r_source (documents (working s))"
    and "mrows (embeddings s') = map r_embedding (documents (working s))"
    and "nrows (embeddings s') = length (documents (working s))"
    and "list_all (\<lambda>v. length v = ncols (embeddings s')) (mrows (embeddings s'))"
    and "documents (working s) = [] \<Longrightarrow> ncols (embeddings s') = encode_dim e"
    and "working s' = working s" and "committed s' = committed s"
    and "query_cache s' = query_cache s" and "encode_calls s' = encode_calls s"
  using assms
  by (auto simp: load_from_db_def Let_def vstack_def zeros_def split: if_splits sum.splits)

lemma load_from_db_empty:
  "documents (working s) = [] \<Longrightarrow>
   load_from_db e s = (Done, s\<lparr>chunks := [], sources := [], embeddings := \<lparr>nrows = 0, ncols = encode_dim e, mrows = []\<rparr>\<rparr>)"
  by (simp add: load_from_db_def zeros_def)

lemma sync_ends_with_load:
  assumes "sync_index_with_files e fd s = (Done, s')"
  shows "\<exists>s0. load_from_db e s0 = (Done, s')"
  using assms
  by (auto simp: sync_index_with_files_def Let_def split: sum.splits outcome.splits prod.splits)


text \<open>
  Claim C9. The index the constructor starts from is aligned and empty, with a matrix
  of zero rows and as many columns as the embedding model's output dimension. After a
  load of the in-memory index that returns (by \<open>_load_from_db\<close> itself, at the end of a
  reconciliation pass, or at construction) the three parallel structures are aligned
  row by row with table \<open>documents\<close>: the chunk texts, the source labels and the matrix
  rows are those of the rows, in order. When the table has no row, the matrix has zero
  rows and as many columns as the embedding model's output dimension.
\<close>

theorem loaded_index_aligned:
  "aligned (fresh e db)
   \<and> embeddings (fresh e db) = \<lparr>nrows = 0, ncols = encode_dim e, mrows = []\<rparr>
   \<and> ((load_from_db e s = (Done, s') \<or> sync_index_with_files e fd s = (Done, s') \<or>
        init e fd db = (Done, s'))
       \<longrightarrow> aligned s'
         \<and> chunks s' = map r_chunk (documents (working s'))
         \<and> sources s' = map r_source (documents (working s'))
         \<and> mrows (embeddings s') = map r_embedding (documents (working s'))
         \<and> (documents (working s') = [] \<longrightarrow>
              embeddings s' = \<lparr>nrows = 0, ncols = encode_dim e, mrows = []\<rparr>))"
proof -
  have start: "aligned (fresh e db)"
    "embeddings (fresh e db) = \<lparr>nrows = 0, ncols = encode_dim e, mrows = []\<rparr>"
    by (simp_all add: aligned_def fresh_def zeros_def)
  have loaded: "aligned s'
     \<and> chunks s' = map r_chunk (documents (working s'))
     \<and> sources s' = map r_source (documents (working s'))
     \<and> mrows (embeddings s') = map r_embedding (documents (working s'))
     \<and> (documents (working s') = [] \<longrightarrow>
          embeddings s' = \<lparr>nrows = 0, ncols = encode_dim e, mrows = []\<rparr>)"
    if returned: "load_from_db e s = (Done, s') \<or> sync_index_with_files e fd s = (Done, s') \<or>
        init e fd db = (Done, s')"
  proof -
    obtain s0 where l: "load_from_db e s0 = (Done, s')"
      using returned sync_ends_with_load unfolding init_def by blast
    note f = load_from_db_done[OF l]
    have "aligned s'" unfolding aligned_def using f by simp
    moreover have "embeddings s' = \<lparr>nrows = 0, ncols = encode_dim e, mrows = []\<rparr>"
      if "documents (working s') = []"
      using that f by (cases "embeddings s'") simp
    ultimately show ?thesis using f by simp
  qed
  show ?thesis using start loaded by blast
qed

section \<open>Queries\<close>

lemma assemble_in_range:
  "\<forall>i \<in> set idxs. i < length cs \<and> i < length ss \<and> i < length sims \<Longrightarrow>
   assemble cs ss sims idxs =
     Inr (map (\<lambda>i. \<lparr>res_chunk = cs ! i, res_source = ss ! i, res_score = sims ! i\<rparr>) idxs)"
  by (induction idxs) auto

lemma length_similarities: "length (similarities e m q) = length (mrows m)"
  by (simp add: similarities_def)

lemma argsort_ok_set: "argsort_ok f \<Longrightarrow> set (f xs) = {0..<length xs}"
  by (simp add: argsort_ok_def)

lemma argsort_ok_length: "argsort_ok f \<Longrightarrow> length (f xs) = length xs"
proof -
  assume a: "argsort_ok f"
  then have "distinct (f xs)" "set (f xs) = {0..<length xs}" by (simp_all add: argsort_ok_def)
  then have "card (set (f xs)) = length (f xs)" and "card (set (f xs)) = card {0..<length xs}"
    using distinct_card[of "f xs"] by simp_all
  then show ?thesis by simp
qed

lemma argsort_ok_sorted: "argsort_ok f \<Longrightarrow> sorted (map (\<lambda>i. np_key (xs ! i)) (f xs))"
  by (simp add: argsort_ok_def)

lemma set_slice_from: "set (slice_from st xs) \<subseteq> set xs"
  by (auto simp: slice_from_def Let_def dest: in_set_dropD)

lemma length_slice_from_neg:
  "length (slice_from (- k) xs) = (if 1 \<le> k then min (nat k) (length xs) else length xs - nat (- k))"
  by (auto simp: slice_from_def Let_def)

lemma slice_from_drop: "\<exists>d. slice_from st xs = drop d xs"
  by (auto simp: slice_from_def Let_def)

lemma slice_from_neg_drop:
  "slice_from (- k) xs
     = drop (length xs - (if 1 \<le> k then min (nat k) (length xs) else length xs - nat (- k))) xs"
proof (cases "1 \<le> k")
  case True
  then have "nat (max (int (length xs) - k) 0) = length xs - min (nat k) (length xs)"
    by (auto simp: min_def max_def)
  then show ?thesis using True by (simp add: slice_from_def Let_def)
next
  case False
  then have "nat (min (- k) (int (length xs))) = length xs - (length xs - nat (- k))"
    by (auto simp: min_def max_def)
  then show ?thesis using False by (simp add: slice_from_def Let_def)
qed

lemma sorted_drop_above_take:
  assumes "sorted (map f xs)" and "j \<in> set (take d xs)" and "i \<in> set (drop d xs)"
  shows "f j \<le> f i"
proof -
  have "sorted (map f (take d xs) @ map f (drop d xs))"
    using assms(1) by (simp flip: map_append)
  then show ?thesis using assms(2,3) by (auto simp: sorted_append)
qed

text \<open>
  What a query returns on a cache miss: the entries of the last \<open>m\<close> indices of \<open>argsort\<close>,
  the best first, where \<open>m\<close> is \<open>min(k, n)\<close> for \<open>k \<ge> 1\<close> and \<open>n - |k|\<close> otherwise. Every
  row that is not returned ranks no higher than every row that is.
\<close>

lemma query_miss:
  fixes k :: int
  assumes al: "aligned s"
    and miss: "query_cache s (md5 e question) = None"
    and ne: "chunks s \<noteq> []"
    and enc: "encode e question = Some q"
    and dim: "length q = ncols (embeddings s)"
    and ok: "argsort_ok (argsort e)"
  defines "sims \<equiv> similarities e (embeddings s) q"
  defines "n \<equiv> length (chunks s)"
  defines "m \<equiv> (if 1 \<le> k then min (nat k) n else n - nat (- k))"
  defines "idxs \<equiv> rev (drop (n - m) (argsort e sims))"
  shows "query e question k s =
           (Inr (map (hit s sims) idxs),
            s\<lparr>encode_calls := Suc (encode_calls s),
              query_cache := (query_cache s)(md5 e question \<mapsto> map (hit s sims) idxs)\<rparr>)"
    and "distinct idxs"
    and "set idxs \<subseteq> {0..<n}"
    and "length idxs = m"
    and "sorted (rev (map (\<lambda>i. np_key (sims ! i)) idxs))"
    and "\<forall>j<n. j \<notin> set idxs \<longrightarrow> (\<forall>i\<in>set idxs. np_key (sims ! j) \<le> np_key (sims ! i))"
proof -
  have len: "length sims = n" "length (sources s) = n"
    using al by (simp_all add: sims_def n_def length_similarities aligned_def)
  have alen: "length (argsort e sims) = n"
    using argsort_ok_length[OF ok, of sims] len by simp
  have aset: "set (argsort e sims) = {0..<n}"
    using argsort_ok_set[OF ok, of sims] len by simp
  have adist: "distinct (argsort e sims)"
    using ok by (simp add: argsort_ok_def)
  have slice: "rev (slice_from (- k) (argsort e sims)) = idxs"
    using slice_from_neg_drop[of k "argsort e sims"] by (simp add: idxs_def m_def alen)
  show sub: "set idxs \<subseteq> {0..<n}"
    using set_drop_subset[of "n - m" "argsort e sims"] aset by (simp add: idxs_def)
  then have "\<forall>i \<in> set idxs. i < length (chunks s) \<and> i < length (sources s) \<and> i < length sims"
    using len by (auto simp: n_def)
  from assemble_in_range[OF this]
  have asm: "assemble (chunks s) (sources s) sims idxs = Inr (map (hit s sims) idxs)"
    by (simp add: hit_def)
  show "query e question k s =
           (Inr (map (hit s sims) idxs),
            s\<lparr>encode_calls := Suc (encode_calls s),
              query_cache := (query_cache s)(md5 e question \<mapsto> map (hit s sims) idxs)\<rparr>)"
    using miss ne enc dim asm
    by (simp add: query_def Let_def sims_def[symmetric] slice)
  show "distinct idxs" using adist by (simp add: idxs_def)
  have "m \<le> n" by (simp add: m_def)
  then show "length idxs = m" by (simp add: idxs_def alen)
  have "rev (map (\<lambda>i. np_key (sims ! i)) idxs)
      = drop (n - m) (map (\<lambda>i. np_key (sims ! i)) (argsort e sims))"
    by (simp add: idxs_def rev_map drop_map)
  then show "sorted (rev (map (\<lambda>i. np_key (sims ! i)) idxs))"
    using argsort_ok_sorted[OF ok, of sims] by (simp add: sorted_wrt_drop)
  show "\<forall>j<n. j \<notin> set idxs \<longrightarrow> (\<forall>i\<in>set idxs. np_key (sims ! j) \<le> np_key (sims ! i))"
  proof (intro allI impI ballI)
    fix j i
    assume j: "j < n" "j \<notin> set idxs" and i: "i \<in> set idxs"
    have "j \<in> set (take (n - m) (argsort e sims) @ drop (n - m) (argsort e sims))"
      using j(1) aset by simp
    then have "j \<in> set (take (n - m) (argsort e sims))"
      using j(2) unfolding set_append by (simp add: idxs_def)
    moreover have "i \<in> set (drop (n - m) (argsort e sims))"
      using i by (simp add: idxs_def)
    ultimately show "np_key (sims ! j) \<le> np_key (sims ! i)"
      using sorted_drop_above_take[OF argsort_ok_sorted[OF ok, of sims]] by blast
  qed
qed

lemma np_argsort_ok: "argsort_ok np_argsort"
  by (simp add: argsort_ok_def np_argsort_def)

text \<open>
  Claim C10. A query never changes the two tables, nor the chunk texts, source labels
  and embedding matrix in memory. On a cache hit or an empty index it changes nothing
  at all. On a cache miss with a non-empty index the only change to the engine is the
  one cache entry stored under the query's key (the count of calls to the embedding
  model, kept for the statements about the cache, goes up by one); when the call
  raises, the cache is left as it was.
\<close>

theorem query_frame:
  "(case query e question k s of (r, s') \<Rightarrow>
      committed s' = committed s \<and> working s' = working s \<and>
      chunks s' = chunks s \<and> sources s' = sources s \<and> embeddings s' = embeddings s \<and>
      (if query_cache s (md5 e question) \<noteq> None \<or> chunks s = [] then s' = s
       else (case r of
               Inr results \<Rightarrow>
                 s' = s\<lparr>encode_calls := Suc (encode_calls s),
                        query_cache := (query_cache s)(md5 e question \<mapsto> results)\<rparr>
             | Inl err \<Rightarrow> s' = s\<lparr>encode_calls := Suc (encode_calls s)\<rparr>)))"
  by (auto simp: query_def Let_def split: option.splits sum.splits)


text \<open>
  Claim C8. When a query has returned a result, the same query text asked again, with
  any \<open>k\<close> and no clearing of the cache in between, returns that very result and leaves
  the whole state as it was: in particular the embedding model is not called.
\<close>

theorem query_cached_repeat:
  assumes "query e question k s = (Inr results, s1)"
  shows "query e question k' s1 = (Inr results, s1) \<and>
         encode_calls (snd (query e question k' s1)) = encode_calls s1"
  using assms
  by (auto simp: query_def Let_def split: option.splits sum.splits if_splits)

section \<open>Reconciliation\<close>

subsection \<open>Dictionaries\<close>

lemma map_of_dict_set: "map_of (dict_set d k v) = (map_of d)(k \<mapsto> v)"
  by (induction d k v rule: dict_set.induct) (auto simp: fun_eq_iff)

lemma keys_dict_set: "fst ` set (dict_set d k v) = insert k (fst ` set d)"
  by (induction d k v rule: dict_set.induct) auto

lemma distinct_dict_set: "distinct (map fst d) \<Longrightarrow> distinct (map fst (dict_set d k v))"
  by (induction d k v rule: dict_set.induct) (auto simp: keys_dict_set)

lemma map_add_upd_left: "m(k \<mapsto> v) ++ n = m ++ ([k \<mapsto> v] ++ n)"
  by (auto simp: fun_eq_iff map_add_def split: option.splits)

lemma fold_dict_set:
  "map_of (fold (\<lambda>(k, v) d. dict_set d k v) L d) = map_of d ++ map_of (rev L)"
proof (induction L arbitrary: d)
  case Nil
  then show ?case by simp
next
  case (Cons x L)
  obtain k v where x: "x = (k, v)" by (cases x)
  have "map_of (fold (\<lambda>(k, v) d. dict_set d k v) (x # L) d)
      = map_of (dict_set d k v) ++ map_of (rev L)"
    using Cons[of "dict_set d k v"] by (simp add: x)
  also have "\<dots> = (map_of d)(k \<mapsto> v) ++ map_of (rev L)"
    by (simp only: map_of_dict_set)
  also have "\<dots> = map_of d ++ ([k \<mapsto> v] ++ map_of (rev L))"
    by (rule map_add_upd_left)
  also have "[k \<mapsto> v] ++ map_of (rev L) = map_of (rev (x # L))"
    by (simp add: x)
  finally show ?case .
qed

lemma fold_dict_set_distinct:
  "distinct (map fst d) \<Longrightarrow> distinct (map fst (fold (\<lambda>(k, v) d. dict_set d k v) L d))"
proof (induction L arbitrary: d)
  case Nil
  then show ?case by simp
next
  case (Cons x L)
  obtain k v where x: "x = (k, v)" by (cases x)
  show ?case using Cons(1)[OF distinct_dict_set[OF Cons(2), of k v]] by (simp add: x)
qed

lemma dict_get_dict_of: "dict_get (dict_of L) = map_of (rev L)"
  using fold_dict_set[of L "[]"] by (simp add: dict_get_def dict_of_def fun_eq_iff)

lemma distinct_dict_of: "distinct (map fst (dict_of L))"
  using fold_dict_set_distinct[of "[]" L] by (simp add: dict_of_def)

lemma dict_contains_get: "dict_contains d k \<longleftrightarrow> dict_get d k \<noteq> None"
  by (simp add: dict_contains_def dict_get_def map_of_eq_None_iff)

lemma stored_is_ledger: "dict_get (dict_of (files_meta st)) = ledger st"
  by (simp add: dict_get_dict_of ledger_def)

subsection \<open>The ledger under the statements that change it\<close>

lemma map_of_rev_Cons: "map_of (rev (x # L)) = [fst x \<mapsto> snd x] ++ map_of (rev L)"
  by (cases x) simp

lemma map_of_rev_filter_key:
  "map_of (rev (filter (\<lambda>(g, d). g \<noteq> f) L)) g = (if g = f then None else map_of (rev L) g)"
proof (induction L)
  case Nil
  then show ?case by simp
next
  case (Cons x L)
  obtain k v where x: "x = (k, v)" by (cases x)
  show ?case
  proof (cases "k = f")
    case True
    then show ?thesis using Cons by (auto simp: x map_add_def split: option.splits)
  next
    case False
    then show ?thesis using Cons by (auto simp: x map_add_def split: option.splits)
  qed
qed

lemma map_of_rev_update_key:
  "map_of (rev (map (\<lambda>(g, d). if g = f then (g, sha) else (g, d)) L)) g
      = (if g = f \<and> map_of (rev L) f \<noteq> None then Some sha else map_of (rev L) g)"
proof (induction L)
  case Nil
  then show ?case by simp
next
  case (Cons x L)
  obtain k v where x: "x = (k, v)" by (cases x)
  show ?case
  proof (cases "k = f")
    case True
    then show ?thesis using Cons by (auto simp: x map_add_def split: option.splits)
  next
    case False
    then show ?thesis using Cons by (auto simp: x map_add_def split: option.splits)
  qed
qed

lemma ledger_insert_or_replace:
  "ledger (meta_insert_or_replace st f sha) = (ledger st)(f \<mapsto> sha)"
  by (rule ext) (simp add: ledger_def meta_insert_or_replace_def map_of_rev_filter_key)

lemma ledger_delete: "ledger (meta_delete st f) = (ledger st)(f := None)"
  by (rule ext) (simp add: ledger_def meta_delete_def map_of_rev_filter_key)

lemma ledger_update:
  "ledger (meta_update st f sha) = (\<lambda>g. if g = f \<and> ledger st f \<noteq> None then Some sha else ledger st g)"
  by (rule ext) (simp add: ledger_def meta_update_def map_of_rev_update_key)

lemma ledger_documents [simp]:
  "ledger (delete_documents st f) = ledger st"
  "ledger (insert_document st f c v h) = ledger st"
  by (simp_all add: ledger_def delete_documents_def insert_document_def)

subsection \<open>What indexing one file changes\<close>

lemma index_chunks_fields:
  "index_chunks e f cs s = (out, s') \<Longrightarrow>
   committed s' = committed s \<and> chunks s' = chunks s \<and> sources s' = sources s \<and>
   embeddings s' = embeddings s \<and> query_cache s' = query_cache s \<and>
   files_meta (working s') = files_meta (working s)"
  by (induction e f cs s rule: index_chunks.induct)
     (auto simp: Let_def insert_document_def split: if_splits option.splits)

lemma index_chunks_documents:
  "index_chunks e f cs s = (out, s') \<Longrightarrow>
   \<exists>new. documents (working s') = documents (working s) @ new \<and> list_all (\<lambda>r. r_source r = f) new"
proof (induction e f cs s rule: index_chunks.induct)
  case (1 e filename s)
  then show ?case by simp
next
  case (2 e filename c cs s)
  show ?case
  proof (cases "py_strip c = []")
    case True
    then show ?thesis using 2 by simp
  next
    case False
    show ?thesis
    proof (cases "encode e (py_strip c)")
      case None
      then show ?thesis using 2(3) False by auto
    next
      case (Some emb)
      let ?s1 = "s\<lparr>encode_calls := Suc (encode_calls s),
                  working := insert_document (working s) filename (py_strip c) emb (sha1 e (py_strip c))\<rparr>"
      have "index_chunks e filename cs ?s1 = (out, s')"
        using 2(3) False Some by (simp add: Let_def)
      from 2(2)[OF refl False Some this]
      obtain new where "documents (working s') = documents (working ?s1) @ new"
        "list_all (\<lambda>r. r_source r = filename) new" by blast
      then show ?thesis by (auto simp: insert_document_def)
    qed
  qed
qed

lemma index_file_fields:
  "index_file e fd f s = (out, s') \<Longrightarrow>
   chunks s' = chunks s \<and> sources s' = sources s \<and>
   embeddings s' = embeddings s \<and> query_cache s' = query_cache s \<and>
   files_meta (working s') = files_meta (working s)"
  by (auto simp: index_file_def commit_def split: option.splits sum.splits prod.splits outcome.splits
           dest: index_chunks_fields)

lemma index_file_documents:
  "index_file e fd f s = (out, s') \<Longrightarrow>
   \<exists>new. documents (working s') = documents (working s) @ new \<and> list_all (\<lambda>r. r_source r = f) new"
  by (auto simp: index_file_def commit_def split: option.splits sum.splits prod.splits outcome.splits
           dest: index_chunks_documents)

lemma index_file_raised:
  "index_file e fd f s = (Raised err, s') \<Longrightarrow> committed s' = committed s"
  by (auto simp: index_file_def commit_def split: option.splits sum.splits prod.splits outcome.splits
           dest: index_chunks_fields)

lemma index_file_done:
  "index_file e fd f s = (Done, s') \<Longrightarrow> committed s' = working s'"
  by (auto simp: index_file_def commit_def split: option.splits sum.splits prod.splits outcome.splits)

lemma ledger_cong: "files_meta a = files_meta b \<Longrightarrow> ledger a = ledger b"
  by (simp add: ledger_def)

lemma index_file_ledger: "index_file e fd f s = (out, s') \<Longrightarrow> ledger (working s') = ledger (working s)"
  using index_file_fields ledger_cong by blast

lemma index_file_frame:
  assumes "index_file e fd f s = (out, s')"
  shows "filter (\<lambda>r. r_source r \<noteq> f) (documents (working s')) = filter (\<lambda>r. r_source r \<noteq> f) (documents (working s))"
proof -
  obtain new where n: "documents (working s') = documents (working s) @ new" "list_all (\<lambda>r. r_source r = f) new"
    using index_file_documents[OF assms] by blast
  have "filter (\<lambda>r. r_source r \<noteq> f) new = []" using n(2) by (induction new) auto
  then show ?thesis using n(1) by simp
qed

subsection \<open>One file of the pass\<close>

lemma documents_meta [simp]:
  "documents (meta_insert_or_replace st f sha) = documents st"
  "documents (meta_update st f sha) = documents st"
  "documents (meta_delete st f) = documents st"
  by (simp_all add: meta_insert_or_replace_def meta_update_def meta_delete_def)

lemma sync_file_unchanged:
  "dict_get stored f = Some sha \<Longrightarrow> sync_file e fd stored f sha s = (Done, s)"
  by (simp add: sync_file_def dict_contains_get)

lemma sync_file_ledger_done:
  assumes run: "sync_file e fd stored f sha s = (Done, s')"
    and snap: "ledger (working s) f = dict_get stored f"
  shows "ledger (working s') = (ledger (working s))(f \<mapsto> sha)"
proof (cases "dict_contains stored f")
  case False
  then obtain s1 where i: "index_file e fd f s = (Done, s1)"
    and s': "s' = commit (s1\<lparr>working := meta_insert_or_replace (working s1) f sha\<rparr>)"
    using run by (auto simp: sync_file_def split: prod.splits outcome.splits)
  show ?thesis using index_file_ledger[OF i] by (simp add: s' commit_def ledger_insert_or_replace)
next
  case True
  then have tracked: "ledger (working s) f \<noteq> None" using snap by (simp add: dict_contains_get)
  show ?thesis
  proof (cases "dict_get stored f = Some sha")
    case same: True
    then have "s' = s" using run sync_file_unchanged[OF same, of e fd s] by simp
    then show ?thesis using same snap by (auto simp: fun_eq_iff)
  next
    case False
    let ?s0 = "commit (s\<lparr>working := delete_documents (working s) f\<rparr>)"
    obtain s1 where i: "index_file e fd f ?s0 = (Done, s1)"
      and s': "s' = commit (s1\<lparr>working := meta_update (working s1) f sha\<rparr>)"
      using run True False by (auto simp: sync_file_def split: prod.splits outcome.splits)
    have "ledger (working s1) = ledger (working s)"
      using index_file_ledger[OF i] by (simp add: commit_def)
    then show ?thesis using tracked
      by (auto simp: s' commit_def ledger_update fun_eq_iff)
  qed
qed

lemma sync_file_frame:
  assumes run: "sync_file e fd stored f sha s = (out, s')"
  shows "filter (\<lambda>r. r_source r \<noteq> f) (documents (working s'))
           = filter (\<lambda>r. r_source r \<noteq> f) (documents (working s))"
    and "g \<noteq> f \<Longrightarrow> ledger (working s') g = ledger (working s) g"
proof -
  let ?s0 = "commit (s\<lparr>working := delete_documents (working s) f\<rparr>)"
  have d0: "filter (\<lambda>r. r_source r \<noteq> f) (documents (working ?s0))
           = filter (\<lambda>r. r_source r \<noteq> f) (documents (working s))"
    by (simp add: commit_def delete_documents_def)
  have l0: "ledger (working ?s0) = ledger (working s)" by (simp add: commit_def)
  consider (unchanged) "s' = s"
    | (new) s1 o1 where "index_file e fd f s = (o1, s1)"
        "s' = s1 \<or> s' = commit (s1\<lparr>working := meta_insert_or_replace (working s1) f sha\<rparr>)"
    | (changed) s1 o1 where "index_file e fd f ?s0 = (o1, s1)"
        "s' = s1 \<or> s' = commit (s1\<lparr>working := meta_update (working s1) f sha\<rparr>)"
    using run by (auto simp: sync_file_def split: if_splits prod.splits outcome.splits)
  then have "filter (\<lambda>r. r_source r \<noteq> f) (documents (working s'))
           = filter (\<lambda>r. r_source r \<noteq> f) (documents (working s))
         \<and> (g \<noteq> f \<longrightarrow> ledger (working s') g = ledger (working s) g)"
  proof cases
    case unchanged
    then show ?thesis by simp
  next
    case (new s1 o1)
    from index_file_frame[OF new(1)] index_file_ledger[OF new(1)] new(2)
    show ?thesis
      by (auto simp: commit_def ledger_insert_or_replace)
  next
    case (changed s1 o1)
    from index_file_frame[OF changed(1)] index_file_ledger[OF changed(1)] changed(2) d0 l0
    show ?thesis
      by (auto simp: commit_def ledger_update)
  qed
  then show "filter (\<lambda>r. r_source r \<noteq> f) (documents (working s'))
           = filter (\<lambda>r. r_source r \<noteq> f) (documents (working s))"
    and "g \<noteq> f \<Longrightarrow> ledger (working s') g = ledger (working s) g" by simp_all
qed

subsection \<open>The loops of the pass\<close>

lemma sync_files_all_unchanged:
  "list_all (\<lambda>(g, sha). dict_get stored g = Some sha) items \<Longrightarrow>
   sync_files e fd stored items s = (Done, s)"
  by (induction items) (auto simp: sync_file_unchanged)

lemma sync_files_ledger:
  assumes "sync_files e fd stored items s = (Done, s')"
    and "distinct (map fst items)"
    and "\<forall>g \<in> fst ` set items. ledger (working s) g = dict_get stored g"
  shows "ledger (working s') = ledger (working s) ++ map_of items"
  using assms
proof (induction items arbitrary: s)
  case Nil
  then show ?case by simp
next
  case (Cons x items)
  obtain f sha where x: "x = (f, sha)" by (cases x)
  obtain s1 where one: "sync_file e fd stored f sha s = (Done, s1)"
    and rest: "sync_files e fd stored items s1 = (Done, s')"
    using Cons.prems(1) by (auto simp: x split: prod.splits outcome.splits)
  have l1: "ledger (working s1) = (ledger (working s))(f \<mapsto> sha)"
    using sync_file_ledger_done[OF one] Cons.prems(3) by (simp add: x)
  have notin: "f \<notin> fst ` set items" using Cons.prems(2) by (simp add: x)
  have "\<forall>g \<in> fst ` set items. ledger (working s1) g = dict_get stored g"
    using Cons.prems(3) notin l1 by auto
  from Cons.IH[OF rest _ this] Cons.prems(2)
  have "ledger (working s') = ledger (working s1) ++ map_of items"
    by simp
  also have "\<dots> = (ledger (working s))(f \<mapsto> sha) ++ map_of items"
    by (simp only: l1)
  also have "\<dots> = ledger (working s) ++ map_of (x # items)"
  proof -
    have none: "map_of items f = None" using notin by (simp add: map_of_eq_None_iff)
    have "[f \<mapsto> sha] ++ map_of items = map_of (x # items)"
      using none by (auto simp: x fun_eq_iff map_add_def split: option.splits)
    then show ?thesis using map_add_upd_left[of "ledger (working s)" f sha "map_of items"] by simp
  qed
  finally show ?case .
qed

lemma sync_files_frame:
  assumes "sync_files e fd stored items s = (out, s')"
    and "list_all (\<lambda>(g, sha). g = f \<or> dict_get stored g = Some sha) items"
  shows "filter (\<lambda>r. r_source r \<noteq> f) (documents (working s'))
           = filter (\<lambda>r. r_source r \<noteq> f) (documents (working s))
         \<and> (\<forall>g. g \<noteq> f \<longrightarrow> ledger (working s') g = ledger (working s) g)"
  using assms
proof (induction items arbitrary: s)
  case Nil
  then show ?case by simp
next
  case (Cons x items)
  obtain g sha where x: "x = (g, sha)" by (cases x)
  obtain o1 s1 where one: "sync_file e fd stored g sha s = (o1, s1)" by (cases "sync_file e fd stored g sha s")
  have step: "filter (\<lambda>r. r_source r \<noteq> f) (documents (working s1))
           = filter (\<lambda>r. r_source r \<noteq> f) (documents (working s))
         \<and> (\<forall>h. h \<noteq> f \<longrightarrow> ledger (working s1) h = ledger (working s) h)"
  proof (cases "g = f")
    case True
    then show ?thesis using sync_file_frame[OF one] by simp
  next
    case False
    then have "dict_get stored g = Some sha" using Cons.prems(2) by (simp add: x)
    then have "s1 = s" using one sync_file_unchanged[of stored g sha e fd s] by simp
    then show ?thesis by simp
  qed
  show ?case
  proof (cases o1)
    case Done
    then have "sync_files e fd stored items s1 = (out, s')"
      using Cons.prems(1) one by (simp add: x)
    from Cons.IH[OF this] Cons.prems(2) step show ?thesis by simp
  next
    case (Raised err)
    then have "s' = s1" using Cons.prems(1) one by (simp add: x)
    then show ?thesis using step by simp
  qed
qed

lemma delete_removed_documents:
  "documents (working (delete_removed R s)) = filter (\<lambda>r. r_source r \<notin> set R) (documents (working s))"
proof (induction R arbitrary: s)
  case Nil
  then show ?case by simp
next
  case (Cons f R)
  have "filter (\<lambda>r. r_source r \<notin> set R) (filter (\<lambda>r. r_source r \<noteq> f) ds)
      = filter (\<lambda>r. r_source r \<notin> set (f # R)) ds" for ds :: "row list"
    by (induction ds) auto
  then show ?case by (simp add: Cons commit_def delete_documents_def)
qed

lemma delete_removed_ledger:
  "ledger (working (delete_removed R s)) = (\<lambda>g. if g \<in> set R then None else ledger (working s) g)"
proof (induction R arbitrary: s)
  case Nil
  then show ?case by simp
next
  case (Cons f R)
  show ?case by (rule ext) (simp add: Cons commit_def ledger_delete)
qed

lemma delete_removed_nil_fields:
  "chunks (delete_removed R s) = chunks s \<and> sources (delete_removed R s) = sources s
   \<and> embeddings (delete_removed R s) = embeddings s \<and> query_cache (delete_removed R s) = query_cache s
   \<and> encode_calls (delete_removed R s) = encode_calls s"
  by (induction R arbitrary: s) (simp_all add: commit_def)

lemma delete_removed_rows:
  "working (delete_removed R s) =
     (working s)\<lparr>documents := filter (\<lambda>r. r_source r \<notin> set R) (documents (working s)),
                 files_meta := filter (\<lambda>(g, d). g \<notin> set R) (files_meta (working s))\<rparr>"
proof (induction R arbitrary: s)
  case Nil
  then show ?case by simp
next
  case (Cons f R)
  show ?case
    by (simp add: Cons commit_def delete_documents_def meta_delete_def case_prod_beta)
qed

text \<open>The order in which the removed files are taken does not matter.\<close>

lemma delete_removed_any_order:
  "set R = set R' \<Longrightarrow> working (delete_removed R s) = working (delete_removed R' s)"
  by (simp add: delete_removed_rows)

lemma compute_meta_distinct:
  "compute_meta e fd files acc = Inr cm \<Longrightarrow> distinct (map fst acc) \<Longrightarrow> distinct (map fst cm)"
  by (induction e fd files acc rule: compute_meta.induct)
     (auto simp: distinct_dict_set split: option.splits)

lemma scan_folder_distinct: "scan_folder e fd = Inr cm \<Longrightarrow> distinct (map fst cm)"
  using compute_meta_distinct[of e fd _ "[]" cm] by (simp add: scan_folder_def)

subsection \<open>The whole pass\<close>

lemma removed_set:
  "set (filter (\<lambda>f. \<not> dict_contains cm f) (map fst (dict_of (files_meta st))))
     = {g. ledger st g \<noteq> None \<and> map_of cm g = None}"
proof -
  have "g \<in> set (map fst (dict_of (files_meta st))) \<longleftrightarrow> ledger st g \<noteq> None" for g
    using dict_contains_get[of "dict_of (files_meta st)" g]
    by (simp add: dict_contains_def stored_is_ledger)
  then show ?thesis
    by (auto simp: dict_contains_get dict_get_def)
qed

lemma sync_done_parts:
  assumes "sync_index_with_files e fd s = (Done, s')"
  obtains cm s1 where "scan_folder e fd = Inr cm"
    and "sync_files e fd (dict_of (files_meta (working s))) cm s = (Done, s1)"
    and "load_from_db e (delete_removed
           (filter (\<lambda>f. \<not> dict_contains cm f) (map fst (dict_of (files_meta (working s))))) s1) = (Done, s')"
  using assms
  by (auto simp: sync_index_with_files_def Let_def split: sum.splits prod.splits outcome.splits)

lemma sync_ledger:
  assumes run: "sync_index_with_files e fd s = (Done, s')"
    and scan: "scan_folder e fd = Inr cm"
  shows "ledger (working s') = map_of cm"
proof -
  define stored where "stored = dict_of (files_meta (working s))"
  define R where "R = filter (\<lambda>f. \<not> dict_contains cm f) (map fst stored)"
  obtain s1 where files: "sync_files e fd stored cm s = (Done, s1)"
    and load: "load_from_db e (delete_removed R s1) = (Done, s')"
    using sync_done_parts[OF run] scan unfolding R_def stored_def by auto
  have Rset: "set R = {g. ledger (working s) g \<noteq> None \<and> map_of cm g = None}"
    unfolding R_def stored_def by (rule removed_set)
  have l1: "ledger (working s1) = ledger (working s) ++ map_of cm"
    using sync_files_ledger[OF files scan_folder_distinct[OF scan]]
    by (simp add: stored_def stored_is_ledger)
  have "ledger (working s') = ledger (working (delete_removed R s1))"
    using load_from_db_done(7)[OF load] by simp
  also have "\<dots> = (\<lambda>g. if g \<in> set R then None else (ledger (working s) ++ map_of cm) g)"
    by (simp only: delete_removed_ledger l1)
  also have "\<dots> = map_of cm"
    unfolding Rset by (rule ext) (auto simp: map_add_def split: option.splits)
  finally show ?thesis .
qed

lemma load_from_db_again:
  assumes "load_from_db e s = (Done, s')"
  shows "load_from_db e s' = (Done, s')"
  using assms
  by (auto simp: load_from_db_def Let_def split: if_splits sum.splits)


text \<open>
  Claim C4. A reconciliation pass that has succeeded, run again on the same folder,
  succeeds and leaves the whole state as it was: the rows of \<open>documents\<close> (their number
  and their content) and the ledger are those the first pass left, and no chunk is
  embedded or stored a second time.
\<close>

theorem sync_idempotent:
  assumes run: "sync_index_with_files e fd s = (Done, s')"
  shows "sync_index_with_files e fd s' = (Done, s') \<and>
         documents (committed (snd (sync_index_with_files e fd s'))) = documents (committed s') \<and>
         files_meta (committed (snd (sync_index_with_files e fd s'))) = files_meta (committed s')"
proof -
  obtain cm where scan: "scan_folder e fd = Inr cm"
    using sync_done_parts[OF run] by blast
  define stored where "stored = dict_of (files_meta (working s'))"
  define R where "R = filter (\<lambda>f. \<not> dict_contains cm f) (map fst stored)"
  have led: "dict_get stored = map_of cm"
    using sync_ledger[OF run scan] by (simp add: stored_def stored_is_ledger)
  have "list_all (\<lambda>(g, sha). dict_get stored g = Some sha) cm"
    using scan_folder_distinct[OF scan] by (auto simp: led list_all_iff)
  then have files: "sync_files e fd stored cm s' = (Done, s')"
    by (rule sync_files_all_unchanged)
  have "set R = {g. ledger (working s') g \<noteq> None \<and> map_of cm g = None}"
    unfolding R_def stored_def by (rule removed_set)
  then have "set R = {}"
    unfolding sync_ledger[OF run scan] by auto
  then have none: "R = []" by simp
  obtain s0 where "load_from_db e s0 = (Done, s')"
    using sync_ends_with_load[OF run] by blast
  then have "load_from_db e s' = (Done, s')" by (rule load_from_db_again)
  then have "sync_index_with_files e fd s' = (Done, s')"
    using files none unfolding R_def stored_def
    by (simp add: sync_index_with_files_def scan)
  then show ?thesis by simp
qed

lemma sync_file_clean:
  assumes "sync_file e fd stored f sha s = (Done, s')" and "committed s = working s"
  shows "committed s' = working s'"
  using assms
  by (auto simp: sync_file_def commit_def split: if_splits prod.splits outcome.splits)

lemma sync_files_clean:
  "sync_files e fd stored items s = (Done, s') \<Longrightarrow> committed s = working s \<Longrightarrow> committed s' = working s'"
proof (induction items arbitrary: s)
  case Nil
  then show ?case by simp
next
  case (Cons x items)
  obtain f sha where x: "x = (f, sha)" by (cases x)
  obtain s1 where one: "sync_file e fd stored f sha s = (Done, s1)"
    and rest: "sync_files e fd stored items s1 = (Done, s')"
    using Cons.prems(1) by (auto simp: x split: prod.splits outcome.splits)
  show ?case using Cons.IH[OF rest sync_file_clean[OF one Cons.prems(2)]] .
qed

lemma delete_removed_clean:
  "committed s = working s \<Longrightarrow> committed (delete_removed R s) = working (delete_removed R s)"
  by (induction R arbitrary: s) (simp_all add: commit_def)

lemma sync_clean:
  assumes run: "sync_index_with_files e fd s = (Done, s')" and clean: "committed s = working s"
  shows "committed s' = working s'"
proof -
  obtain cm s1 R where files: "sync_files e fd (dict_of (files_meta (working s))) cm s = (Done, s1)"
    and load: "load_from_db e (delete_removed R s1) = (Done, s')"
    using sync_done_parts[OF run] by metis
  have "committed (delete_removed R s1) = working (delete_removed R s1)"
    using delete_removed_clean[OF sync_files_clean[OF files clean]] .
  then show ?thesis using load_from_db_done(7,8)[OF load] by simp
qed

lemma sync_frame_one_file:
  assumes scan: "scan_folder e fd = Inr cm"
    and others: "\<forall>g. g \<noteq> f \<longrightarrow> ledger (committed s) g = map_of cm g"
    and clean: "working s = committed s"
    and run: "sync_index_with_files e fd s = (Done, s')"
  shows "filter (\<lambda>r. r_source r \<noteq> f) (documents (committed s'))
           = filter (\<lambda>r. r_source r \<noteq> f) (documents (committed s))
       \<and> (\<forall>g. g \<noteq> f \<longrightarrow> ledger (committed s') g = ledger (committed s) g)
       \<and> ledger (committed s') f = map_of cm f
       \<and> (ledger (committed s) f \<noteq> None \<and> map_of cm f = None \<longrightarrow>
            documents (committed s') = filter (\<lambda>r. r_source r \<noteq> f) (documents (committed s)))
       \<and> working s' = committed s'"
proof -
  define stored where "stored = dict_of (files_meta (working s))"
  define R where "R = filter (\<lambda>f. \<not> dict_contains cm f) (map fst stored)"
  obtain s1 where files: "sync_files e fd stored cm s = (Done, s1)"
    and load: "load_from_db e (delete_removed R s1) = (Done, s')"
    using sync_done_parts[OF run] scan unfolding R_def stored_def by auto
  have c': "committed s' = working s'" using sync_clean[OF run] clean by simp
  have w': "working s' = working (delete_removed R s1)"
    using load_from_db_done(7)[OF load] .
  have Rset: "set R = {g. ledger (working s) g \<noteq> None \<and> map_of cm g = None}"
    unfolding R_def stored_def by (rule removed_set)
  have Rsub: "set R \<subseteq> {f}" using others clean unfolding Rset by auto
  have "list_all (\<lambda>(g, sha). g = f \<or> dict_get stored g = Some sha) cm"
    using others clean scan_folder_distinct[OF scan]
    by (auto simp: list_all_iff stored_def stored_is_ledger)
  from sync_files_frame[OF files this]
  have d1: "filter (\<lambda>r. r_source r \<noteq> f) (documents (working s1))
           = filter (\<lambda>r. r_source r \<noteq> f) (documents (working s))"
    and l1: "\<forall>g. g \<noteq> f \<longrightarrow> ledger (working s1) g = ledger (working s) g" by simp_all
  have "filter (\<lambda>r. r_source r \<noteq> f) (filter (\<lambda>r. r_source r \<notin> set R) ds)
      = filter (\<lambda>r. r_source r \<noteq> f) ds" for ds :: "row list"
    using Rsub by (induction ds) auto
  then have docs: "filter (\<lambda>r. r_source r \<noteq> f) (documents (working s'))
           = filter (\<lambda>r. r_source r \<noteq> f) (documents (working s))"
    by (simp add: w' delete_removed_documents d1)
  have led: "\<forall>g. g \<noteq> f \<longrightarrow> ledger (working s') g = ledger (working s) g"
    using Rsub l1 by (auto simp: w' delete_removed_ledger)
  have mine: "ledger (working s') f = map_of cm f"
    using sync_ledger[OF run scan] by simp
  have gone: "documents (working s') = filter (\<lambda>r. r_source r \<noteq> f) (documents (working s))"
    if "ledger (committed s) f \<noteq> None" "map_of cm f = None"
  proof -
    have "dict_get stored g = Some sha" if in_cm: "(g, sha) \<in> set cm" for g sha
    proof -
      have m: "map_of cm g = Some sha"
        using in_cm scan_folder_distinct[OF scan] by simp
      then have "g \<noteq> f" using \<open>map_of cm f = None\<close> by auto
      then show ?thesis using others clean m by (simp add: stored_def stored_is_ledger)
    qed
    then have "list_all (\<lambda>(g, sha). dict_get stored g = Some sha) cm"
      by (auto simp: list_all_iff)
    then have "s1 = s" using files sync_files_all_unchanged[of stored cm e fd s] by simp
    moreover have "set R = {f}" using that clean Rsub unfolding Rset by auto
    ultimately show ?thesis by (simp add: w' delete_removed_documents)
  qed
  show ?thesis using docs led mine gone c' clean by simp
qed


text \<open>
  Claim C5. Let a pass on a folder have succeeded, and let the folder then change in
  one file \<open>f\<close> only (its content is edited, or the file is deleted). A second pass that
  succeeds leaves the rows of every other file in \<open>documents\<close> as they were (the same
  rows in the same order) and the ledger entry of every other file as it was; the ledger
  entry of \<open>f\<close> becomes the digest of its new content, or is gone when the file is gone;
  and when \<open>f\<close> was tracked and is gone, what is left in \<open>documents\<close> is exactly the rows of
  the other files.
\<close>

theorem sync_frame:
  assumes clean: "working s0 = committed s0"
    and first: "sync_index_with_files e fd0 s0 = (Done, s)"
    and scan0: "scan_folder e fd0 = Inr cm0"
    and scan: "scan_folder e fd = Inr cm"
    and only_f: "\<forall>g. g \<noteq> f \<longrightarrow> map_of cm g = map_of cm0 g"
    and second: "sync_index_with_files e fd s = (Done, s')"
  shows "filter (\<lambda>r. r_source r \<noteq> f) (documents (committed s'))
           = filter (\<lambda>r. r_source r \<noteq> f) (documents (committed s))
       \<and> (\<forall>g. g \<noteq> f \<longrightarrow> ledger (committed s') g = ledger (committed s) g)
       \<and> ledger (committed s') f = map_of cm f
       \<and> (map_of cm0 f \<noteq> None \<and> map_of cm f = None \<longrightarrow>
            documents (committed s') = filter (\<lambda>r. r_source r \<noteq> f) (documents (committed s)))"
proof -
  have c: "working s = committed s" using sync_clean[OF first] clean by simp
  have l: "ledger (committed s) = map_of cm0" using sync_ledger[OF first scan0] c by simp
  have "\<forall>g. g \<noteq> f \<longrightarrow> ledger (committed s) g = map_of cm g"
    using only_f by (simp add: l)
  from sync_frame_one_file[OF scan this c second] show ?thesis by (simp add: l)
qed

text \<open>
  Claim C1, as the code has it. The pass commits in steps, not once per file. When the
  step of one file raises (the embedding model fails, or the file cannot be read), no
  ledger row is written and none of the rows inserted for the file becomes durable. For
  a new file the database on disk is left as it was. For a changed file its previous
  rows are already deleted on disk, under the previous digest. A step that returns
  leaves no open transaction, so this holds at every file of the pass.
\<close>

theorem sync_file_failure_durable:
  assumes clean: "committed s = working s"
  shows "(case sync_file e fd stored fname sha s of
            (Done, s') \<Rightarrow> committed s' = working s'
          | (Raised err, s') \<Rightarrow>
              files_meta (committed s') = files_meta (committed s) \<and>
              seq (committed s') = seq (committed s) \<and>
              documents (committed s') =
                (if dict_contains stored fname
                 then filter (\<lambda>r. r_source r \<noteq> fname) (documents (committed s))
                 else documents (committed s)))"
proof (cases "sync_file e fd stored fname sha s" rule: outcome_pair_cases)
  case (1 s')
  then show ?thesis using sync_file_clean[OF 1 clean] by simp
next
  case (2 err s')
  show ?thesis
  proof (cases "dict_contains stored fname")
    case False
    then have "index_file e fd fname s = (Raised err, s')"
      using 2 by (auto simp: sync_file_def split: prod.splits outcome.splits)
    from index_file_raised[OF this] show ?thesis using 2 False by simp
  next
    case True
    let ?s0 = "commit (s\<lparr>working := delete_documents (working s) fname\<rparr>)"
    have "index_file e fd fname ?s0 = (Raised err, s')"
      using 2 True by (auto simp: sync_file_def split: if_splits prod.splits outcome.splits)
    from index_file_raised[OF this] show ?thesis
      using 2 True clean by (simp add: commit_def delete_documents_def)
  qed
qed

section \<open>The engine on the concrete inputs\<close>

text \<open>The two engines of the section on concrete inputs are what the constructor builds.\<close>

lemma demo_init: "init demo_env demo_folder empty_store = (Done, demo_rag)"
  by (simp add: demo_defs engine_defs)

lemma zero_init: "init demo_env (edited_folder (str ''zero'')) empty_store = (Done, zero_rag)"
  by (simp add: demo_defs engine_defs)

text \<open>Claim C9 on the demo folder, and on a database with no row.\<close>

theorem loaded_index_aligned_witness:
  "init demo_env demo_folder empty_store = (Done, demo_rag)
   \<and> aligned demo_rag
   \<and> chunks demo_rag = map r_chunk (documents (working demo_rag))
   \<and> load_from_db demo_env (fresh demo_env empty_store) = (Done, fresh demo_env empty_store)
   \<and> embeddings (fresh demo_env empty_store) = \<lparr>nrows = 0, ncols = encode_dim demo_env, mrows = []\<rparr>"
proof -
  have l: "load_from_db demo_env (fresh demo_env empty_store) = (Done, fresh demo_env empty_store)"
    by (simp add: demo_defs engine_defs)
  have d: "documents (working (fresh demo_env empty_store)) = []"
    by (simp add: demo_defs)
  from loaded_index_aligned[where e = demo_env and s = "fresh demo_env empty_store" and s' = demo_rag
         and fd = demo_folder and db = empty_store]
       loaded_index_aligned[where e = demo_env and s = "fresh demo_env empty_store"
         and s' = "fresh demo_env empty_store" and fd = demo_folder and db = empty_store]
       demo_init l d
  show ?thesis by simp
qed

text \<open>Claim C10 on the demo engine: a first query, which misses the cache.\<close>

theorem query_frame_witness:
  "query demo_env (str ''q'') 1 demo_rag
     = (Inr [\<lparr>res_chunk = str ''one two'', res_source = str ''b.md'',
              res_score = Fin (1000000000000 / 1000000000001)\<rparr>],
        demo_rag\<lparr>encode_calls := 3,
                 query_cache := [str ''q'' \<mapsto>
                   [\<lparr>res_chunk = str ''one two'', res_source = str ''b.md'',
                     res_score = Fin (1000000000000 / 1000000000001)\<rparr>]]\<rparr>)
   \<and> working (snd (query demo_env (str ''q'') 1 demo_rag)) = demo_store"
proof -
  have q: "fst (query demo_env (str ''q'') 1 demo_rag)
     = Inr [\<lparr>res_chunk = str ''one two'', res_source = str ''b.md'',
              res_score = Fin (1000000000000 / 1000000000001)\<rparr>]"
    by (simp add: query_defs demo_defs str_def)
  have m: "query_cache demo_rag (md5 demo_env (str ''q'')) = None" "chunks demo_rag \<noteq> []"
    by (simp_all add: demo_defs)
  from query_frame[where e = demo_env and question = "str ''q''" and k = 1 and s = demo_rag] q m
  show ?thesis
    by (cases "query demo_env (str ''q'') 1 demo_rag") (simp add: demo_env_def demo_rag_def)
qed

text \<open>Claim C8 on the demo engine: the query asked twice, the second time with another \<open>k\<close>.\<close>

theorem query_cached_repeat_witness:
  "query demo_env (str ''q'') 1 demo_rag
     = (Inr [\<lparr>res_chunk = str ''one two'', res_source = str ''b.md'',
              res_score = Fin (1000000000000 / 1000000000001)\<rparr>],
        snd (query demo_env (str ''q'') 1 demo_rag))
   \<and> query demo_env (str ''q'') 2 (snd (query demo_env (str ''q'') 1 demo_rag))
     = (Inr [\<lparr>res_chunk = str ''one two'', res_source = str ''b.md'',
              res_score = Fin (1000000000000 / 1000000000001)\<rparr>],
        snd (query demo_env (str ''q'') 1 demo_rag))
   \<and> encode_calls (snd (query demo_env (str ''q'') 2 (snd (query demo_env (str ''q'') 1 demo_rag)))) = 3"
proof -
  define s1 where "s1 = snd (query demo_env (str ''q'') 1 demo_rag)"
  have q: "fst (query demo_env (str ''q'') 1 demo_rag)
     = Inr [\<lparr>res_chunk = str ''one two'', res_source = str ''b.md'',
              res_score = Fin (1000000000000 / 1000000000001)\<rparr>]"
    by (simp add: query_defs demo_defs str_def)
  have c: "encode_calls s1 = 3"
    unfolding s1_def by (simp add: query_defs demo_defs str_def)
  have first: "query demo_env (str ''q'') 1 demo_rag
     = (Inr [\<lparr>res_chunk = str ''one two'', res_source = str ''b.md'',
              res_score = Fin (1000000000000 / 1000000000001)\<rparr>], s1)"
    using q unfolding s1_def by (simp add: prod_eq_iff)
  from query_cached_repeat[OF first, of 2] first c
  show ?thesis unfolding s1_def by simp
qed

text \<open>Claim C4 on the demo folder: the pass of the constructor, then the pass again.\<close>

theorem sync_idempotent_witness:
  "sync_index_with_files demo_env demo_folder (fresh demo_env empty_store) = (Done, demo_rag)
   \<and> sync_index_with_files demo_env demo_folder demo_rag = (Done, demo_rag)
   \<and> length (documents (committed demo_rag)) = 2"
proof -
  have first: "sync_index_with_files demo_env demo_folder (fresh demo_env empty_store) = (Done, demo_rag)"
    by (simp add: demo_defs engine_defs)
  from sync_idempotent[OF first] first show ?thesis
    by (simp add: demo_rag_def demo_store_def)
qed

text \<open>Claim C5 on the demo folder: \<open>a.txt\<close> edited, and \<open>a.txt\<close> deleted.\<close>

theorem sync_frame_witness:
  "working (fresh demo_env empty_store) = committed (fresh demo_env empty_store)
   \<and> sync_index_with_files demo_env demo_folder (fresh demo_env empty_store) = (Done, demo_rag)
   \<and> scan_folder demo_env demo_folder = Inr [(str ''a.txt'', str ''four''), (str ''b.md'', str ''one two'')]
   \<and> scan_folder demo_env (edited_folder (str ''seven'')) = Inr [(str ''a.txt'', str ''seven''), (str ''b.md'', str ''one two'')]
   \<and> fst (sync_index_with_files demo_env (edited_folder (str ''seven'')) demo_rag) = Done
   \<and> filter (\<lambda>r. r_source r \<noteq> str ''a.txt'')
        (documents (committed (snd (sync_index_with_files demo_env (edited_folder (str ''seven'')) demo_rag))))
      = [\<lparr>r_id = 2, r_source = str ''b.md'', r_chunk = str ''one two'',
          r_embedding = [0, 1], r_chunk_hash = str ''one two''\<rparr>]
   \<and> ledger (committed (snd (sync_index_with_files demo_env (edited_folder (str ''seven'')) demo_rag))) (str ''a.txt'')
      = Some (str ''seven'')
   \<and> scan_folder demo_env shrunk_folder = Inr [(str ''b.md'', str ''one two'')]
   \<and> fst (sync_index_with_files demo_env shrunk_folder demo_rag) = Done
   \<and> documents (committed (snd (sync_index_with_files demo_env shrunk_folder demo_rag)))
      = [\<lparr>r_id = 2, r_source = str ''b.md'', r_chunk = str ''one two'',
          r_embedding = [0, 1], r_chunk_hash = str ''one two''\<rparr>]
   \<and> ledger (committed (snd (sync_index_with_files demo_env shrunk_folder demo_rag))) (str ''a.txt'') = None"
proof -
  let ?a = "str ''a.txt''"
  let ?cm0 = "[(str ''a.txt'', str ''four''), (str ''b.md'', str ''one two'')]"
  let ?cm1 = "[(str ''a.txt'', str ''seven''), (str ''b.md'', str ''one two'')]"
  let ?cm2 = "[(str ''b.md'', str ''one two'')]"
  define s1 where "s1 = snd (sync_index_with_files demo_env (edited_folder (str ''seven'')) demo_rag)"
  define s2 where "s2 = snd (sync_index_with_files demo_env shrunk_folder demo_rag)"
  have clean: "working (fresh demo_env empty_store) = committed (fresh demo_env empty_store)"
    by (simp add: fresh_def)
  have first: "sync_index_with_files demo_env demo_folder (fresh demo_env empty_store) = (Done, demo_rag)"
    by (simp add: demo_defs engine_defs)
  have scan0: "scan_folder demo_env demo_folder = Inr ?cm0"
    by (simp add: demo_defs engine_defs)
  have scan1: "scan_folder demo_env (edited_folder (str ''seven'')) = Inr ?cm1"
    by (simp add: demo_defs engine_defs)
  have scan2: "scan_folder demo_env shrunk_folder = Inr ?cm2"
    by (simp add: demo_defs engine_defs)
  have d1: "fst (sync_index_with_files demo_env (edited_folder (str ''seven'')) demo_rag) = Done"
    by (simp add: demo_defs engine_defs)
  have d2: "fst (sync_index_with_files demo_env shrunk_folder demo_rag) = Done"
    by (simp add: demo_defs engine_defs)
  have run1: "sync_index_with_files demo_env (edited_folder (str ''seven'')) demo_rag = (Done, s1)"
    using d1 unfolding s1_def by (simp add: prod_eq_iff)
  have run2: "sync_index_with_files demo_env shrunk_folder demo_rag = (Done, s2)"
    using d2 unfolding s2_def by (simp add: prod_eq_iff)
  have o1: "\<forall>g. g \<noteq> ?a \<longrightarrow> map_of ?cm1 g = map_of ?cm0 g" by simp
  have o2: "\<forall>g. g \<noteq> ?a \<longrightarrow> map_of ?cm2 g = map_of ?cm0 g" by simp
  have docs: "filter (\<lambda>r. r_source r \<noteq> ?a) (documents (committed demo_rag))
      = [\<lparr>r_id = 2, r_source = str ''b.md'', r_chunk = str ''one two'',
          r_embedding = [0, 1], r_chunk_hash = str ''one two''\<rparr>]"
    by (simp add: demo_defs str_def)
  have gone: "map_of ?cm0 ?a \<noteq> None \<and> map_of ?cm2 ?a = None" by (simp add: str_def)
  note f1 = sync_frame[OF clean first scan0 scan1 o1 run1]
  note f2 = sync_frame[OF clean first scan0 scan2 o2 run2]
  show ?thesis
    using clean first scan0 scan1 scan2 d1 d2 f1 f2 docs gone
    unfolding s1_def s2_def by simp
qed

text \<open>
  Claim C1 on the demo engine: \<open>a.txt\<close> now holds a text on which the embedding model
  fails. The step raises; on disk the row of \<open>a.txt\<close> is gone and the ledger is as before.
\<close>

theorem sync_file_failure_durable_witness:
  "committed demo_rag = working demo_rag
   \<and> fst (sync_file demo_env (edited_folder (str ''fail'')) (dict_of (files_meta demo_store))
            (str ''a.txt'') (str ''fail'') demo_rag) = Raised OracleError
   \<and> committed (snd (sync_file demo_env (edited_folder (str ''fail'')) (dict_of (files_meta demo_store))
            (str ''a.txt'') (str ''fail'') demo_rag))
      = demo_store\<lparr>documents := [\<lparr>r_id = 2, r_source = str ''b.md'', r_chunk = str ''one two'',
          r_embedding = [0, 1], r_chunk_hash = str ''one two''\<rparr>]\<rparr>"
proof -
  let ?r = "sync_file demo_env (edited_folder (str ''fail'')) (dict_of (files_meta demo_store))
            (str ''a.txt'') (str ''fail'') demo_rag"
  have clean: "committed demo_rag = working demo_rag" by (simp add: demo_rag_def)
  have r: "fst ?r = Raised OracleError" by (simp add: demo_defs engine_defs)
  have tracked: "dict_contains (dict_of (files_meta demo_store)) (str ''a.txt'')"
    by (simp add: demo_defs engine_defs)
  have docs: "filter (\<lambda>r. r_source r \<noteq> str ''a.txt'') (documents (committed demo_rag))
      = [\<lparr>r_id = 2, r_source = str ''b.md'', r_chunk = str ''one two'',
          r_embedding = [0, 1], r_chunk_hash = str ''one two''\<rparr>]"
    by (simp add: demo_defs str_def)
  from sync_file_failure_durable[OF clean, where e = demo_env and fd = "edited_folder (str ''fail'')"
      and stored = "dict_of (files_meta demo_store)" and fname = "str ''a.txt''" and sha = "str ''fail''"]
    r tracked docs clean
  show ?thesis
    by (cases ?r) (simp add: demo_rag_def demo_store_def)
qed

text \<open>
  The same failure seen from the whole pass: the previous chunk of \<open>a.txt\<close> is not left
  intact, while its previous digest is. The per-file update is not one durable unit.
\<close>

theorem sync_failure_loses_chunks:
  "fst (sync_index_with_files demo_env (edited_folder (str ''fail'')) demo_rag) = Raised OracleError
   \<and> filter (\<lambda>r. r_source r = str ''a.txt'') (documents (committed demo_rag))
      = [\<lparr>r_id = 1, r_source = str ''a.txt'', r_chunk = str ''four'',
          r_embedding = [1, 0], r_chunk_hash = str ''four''\<rparr>]
   \<and> filter (\<lambda>r. r_source r = str ''a.txt'')
        (documents (committed (snd (sync_index_with_files demo_env (edited_folder (str ''fail'')) demo_rag)))) = []
   \<and> ledger (committed (snd (sync_index_with_files demo_env (edited_folder (str ''fail'')) demo_rag)))
        (str ''a.txt'') = Some (str ''four'')"
  by (simp add: demo_defs engine_defs ledger_def)

section \<open>The ranked results of a query\<close>

text \<open>
  Claim C7, as the code has it. The query does not validate \<open>k\<close>. For \<open>k \<le> 0\<close>, on a
  cache miss with a non-empty, aligned index, when the embedding model returns a query
  vector as long as the matrix is wide, the slice \<open>[-k:]\<close> drops the first \<open>|k|\<close> indices of
  \<open>argsort\<close>: the query returns (and stores in the cache) the entries of the remaining
  \<open>n - |k|\<close> rows, each row once, the best first. For \<open>k = 0\<close> these are all \<open>n\<close> rows; for
  \<open>k < 0\<close> every row left out ranks no higher than every row returned.
\<close>

theorem query_nonpositive_k:
  fixes k :: int
  assumes "k \<le> 0"
    and "aligned s"
    and "query_cache s (md5 e question) = None"
    and "chunks s \<noteq> []"
    and "encode e question = Some q"
    and "length q = ncols (embeddings s)"
    and "argsort_ok (argsort e)"
    and "sims = similarities e (embeddings s) q"
    and "idxs = rev (drop (nat (- k)) (argsort e sims))"
  shows "query e question k s =
           (Inr (map (hit s sims) idxs),
            s\<lparr>encode_calls := Suc (encode_calls s),
              query_cache := (query_cache s)(md5 e question \<mapsto> map (hit s sims) idxs)\<rparr>)
         \<and> distinct idxs
         \<and> set idxs \<subseteq> {0..<length (chunks s)}
         \<and> length idxs = length (chunks s) - nat (- k)
         \<and> (k = 0 \<longrightarrow> set idxs = {0..<length (chunks s)})
         \<and> sorted (rev (map (\<lambda>i. np_key (sims ! i)) idxs))
         \<and> (\<forall>j<length (chunks s). j \<notin> set idxs \<longrightarrow>
              (\<forall>i\<in>set idxs. np_key (sims ! j) \<le> np_key (sims ! i)))"
proof -
  let ?n = "length (chunks s)"
  have m: "(if 1 \<le> k then min (nat k) ?n else ?n - nat (- k)) = ?n - nat (- k)"
    using assms(1) by simp
  have d: "drop (?n - (?n - nat (- k))) (argsort e sims) = drop (nat (- k)) (argsort e sims)"
  proof (cases "nat (- k) \<le> ?n")
    case True
    then show ?thesis by simp
  next
    case False
    moreover have "length (argsort e sims) = ?n"
      using argsort_ok_length[OF assms(7), of sims] assms(2)
      by (simp add: assms(8) length_similarities aligned_def)
    ultimately show ?thesis by simp
  qed
  note q = query_miss[OF assms(2-7), of k, folded assms(8), unfolded m d, folded assms(9)]
  have all: "set idxs = {0..<?n}" if "k = 0"
  proof -
    have "card (set idxs) = ?n" using q(2) q(4) that by (simp add: distinct_card)
    then show ?thesis using q(3) by (simp add: card_subset_eq)
  qed
  show ?thesis using q all by blast
qed

theorem query_nonpositive_k_witness:
  "(0::int) \<le> 0 \<and> aligned demo_rag \<and> argsort_ok (argsort demo_env)
   \<and> similarities demo_env (embeddings demo_rag) [0, 1]
      = [Fin 0, Fin (1000000000000 / 1000000000001)]
   \<and> rev (drop (nat (- 0)) (argsort demo_env [Fin 0, Fin (1000000000000 / 1000000000001)])) = [1, 0]
   \<and> fst (query demo_env (str ''q'') 0 demo_rag)
      = Inr (map (hit demo_rag [Fin 0, Fin (1000000000000 / 1000000000001)]) [1, 0])
   \<and> map (hit demo_rag [Fin 0, Fin (1000000000000 / 1000000000001)]) [1, 0]
      = [\<lparr>res_chunk = str ''one two'', res_source = str ''b.md'',
               res_score = Fin (1000000000000 / 1000000000001)\<rparr>,
         \<lparr>res_chunk = str ''four'', res_source = str ''a.txt'', res_score = Fin 0\<rparr>]
   \<and> set [1, 0 :: nat] = {0..<length (chunks demo_rag)}"
proof -
  let ?sims = "[Fin 0, Fin (1000000000000 / 1000000000001)]"
  have al: "aligned demo_rag" by (simp add: aligned_def demo_defs)
  have miss: "query_cache demo_rag (md5 demo_env (str ''q'')) = None" by (simp add: demo_defs)
  have ne: "chunks demo_rag \<noteq> []" by (simp add: demo_defs)
  have enc: "encode demo_env (str ''q'') = Some [0, 1]" by (simp add: demo_defs str_def)
  have dim: "length [0, 1 :: real] = ncols (embeddings demo_rag)" by (simp add: demo_defs)
  have ok: "argsort_ok (argsort demo_env)" using np_argsort_ok by (simp add: demo_env_def)
  have sims: "?sims = similarities demo_env (embeddings demo_rag) [0, 1]"
    by (simp add: query_defs demo_defs)
  have idxs: "[1, 0] = rev (drop (nat (- 0)) (argsort demo_env ?sims))"
    by (simp add: query_defs demo_defs)
  have hits: "map (hit demo_rag ?sims) [1, 0]
      = [\<lparr>res_chunk = str ''one two'', res_source = str ''b.md'',
               res_score = Fin (1000000000000 / 1000000000001)\<rparr>,
         \<lparr>res_chunk = str ''four'', res_source = str ''a.txt'', res_score = Fin 0\<rparr>]"
    by (simp add: hit_def demo_defs)
  have z: "(0::int) \<le> 0" by simp
  from query_nonpositive_k[OF z al miss ne enc dim ok sims idxs] al ok sims[symmetric]
    idxs[symmetric] hits
  show ?thesis by simp
qed

text \<open>On the demo engine \<open>k = 0\<close>, \<open>k = -1\<close> and \<open>k = -5\<close> return result lists, not an error.\<close>

theorem query_accepts_invalid_k:
  "fst (query demo_env (str ''q'') 0 demo_rag)
      = Inr [\<lparr>res_chunk = str ''one two'', res_source = str ''b.md'',
               res_score = Fin (1000000000000 / 1000000000001)\<rparr>,
             \<lparr>res_chunk = str ''four'', res_source = str ''a.txt'', res_score = Fin 0\<rparr>]
   \<and> fst (query demo_env (str ''q'') (- 1) demo_rag)
      = Inr [\<lparr>res_chunk = str ''one two'', res_source = str ''b.md'',
               res_score = Fin (1000000000000 / 1000000000001)\<rparr>]
   \<and> fst (query demo_env (str ''q'') (- 5) demo_rag) = Inr []"
  by (simp add: query_defs demo_defs str_def)

text \<open>
  The score of a stored zero vector, in any arithmetic in which the norm of the zero
  vector and its dot product with the query vector are 0, the norm of the query vector
  plus \<open>1e-12\<close> is finite, 0 times a finite number is 0 and \<open>0 / 0\<close> is NaN (all of which
  hold of \<open>float32\<close>): the constant guards the query vector's norm only, the
  denominator is 0 and the score is NaN.
\<close>

lemma zero_row_score_nan:
  assumes "row_norm e v = Fin 0"
    and "np_dot e v q = Fin 0"
    and "add_eps e (vec_norm e q) = Fin x"
    and "np_mul e (Fin 0) (Fin x) = Fin 0"
    and "np_div e (Fin 0) (Fin 0) = NaN"
  shows "similarities e \<lparr>nrows = 1, ncols = length v, mrows = [v]\<rparr> q = [NaN]"
  using assms by (simp add: similarities_def)

text \<open>
  Claim C2 at a stored zero vector, with \<open>k\<close> larger than the number of chunks. The
  constructor on a folder whose first file is embedded as the zero vector builds
  \<open>zero_rag\<close>. The query returns both chunks, the one with the score NaN first: the
  scores of the list are not ordered by \<open>\<ge>\<close>.
\<close>

theorem query_zero_vector_ranking:
  "init demo_env (edited_folder (str ''zero'')) empty_store = (Done, zero_rag)
   \<and> query_cache zero_rag (md5 demo_env (str ''q'')) = None
   \<and> length (chunks zero_rag) = 2
   \<and> fst (query demo_env (str ''q'') 5 zero_rag)
      = Inr [\<lparr>res_chunk = str ''zero'', res_source = str ''a.txt'', res_score = NaN\<rparr>,
             \<lparr>res_chunk = str ''one two'', res_source = str ''b.md'',
               res_score = Fin (1000000000000 / 1000000000001)\<rparr>]
   \<and> \<not> float_ge NaN (Fin (1000000000000 / 1000000000001))"
proof -
  have i: "init demo_env (edited_folder (str ''zero'')) empty_store = (Done, zero_rag)"
    by (rule zero_init)
  have c: "query_cache zero_rag (md5 demo_env (str ''q'')) = None \<and> length (chunks zero_rag) = 2"
    by (simp add: demo_defs)
  have q: "fst (query demo_env (str ''q'') 5 zero_rag)
      = Inr [\<lparr>res_chunk = str ''zero'', res_source = str ''a.txt'', res_score = NaN\<rparr>,
             \<lparr>res_chunk = str ''one two'', res_source = str ''b.md'',
               res_score = Fin (1000000000000 / 1000000000001)\<rparr>]"
    by (simp add: query_defs demo_defs str_def)
  show ?thesis using i c q by (simp add: float_ge_def)
qed

text \<open>
  Claim C6 at a stored zero vector. The constructor on a folder whose first file is
  embedded as the zero vector builds \<open>zero_rag\<close>. The denominator of that row's score is
  zero, the score is NaN (\<open>0 / 0\<close>), and the query ranks the row first, before a score
  it is not \<open>\<ge>\<close> to. A zero query vector against non-zero rows gives the score 0.
\<close>

theorem zero_row_similarity:
  "init demo_env (edited_folder (str ''zero'')) empty_store = (Done, zero_rag)
   \<and> norm2 [0, 0] * (norm2 [0, 1] + 1 / 10 ^ 12) = 0
   \<and> similarities demo_env (embeddings zero_rag) [0, 1]
      = [NaN, Fin (1000000000000 / 1000000000001)]
   \<and> similarities demo_env (embeddings demo_rag) [0, 0] = [Fin 0, Fin 0]
   \<and> fst (query demo_env (str ''q'') 2 zero_rag)
      = Inr [\<lparr>res_chunk = str ''zero'', res_source = str ''a.txt'', res_score = NaN\<rparr>,
             \<lparr>res_chunk = str ''one two'', res_source = str ''b.md'',
               res_score = Fin (1000000000000 / 1000000000001)\<rparr>]
   \<and> \<not> float_ge NaN (Fin (1000000000000 / 1000000000001))"
proof -
  have i: "init demo_env (edited_folder (str ''zero'')) empty_store = (Done, zero_rag)"
    by (rule zero_init)
  have s: "norm2 [0, 0] * (norm2 [0, 1] + 1 / 10 ^ 12) = 0
   \<and> similarities demo_env (embeddings zero_rag) [0, 1]
      = [NaN, Fin (1000000000000 / 1000000000001)]
   \<and> similarities demo_env (embeddings demo_rag) [0, 0] = [Fin 0, Fin 0]"
    by (simp add: query_defs demo_defs)
  have q: "fst (query demo_env (str ''q'') 2 zero_rag)
      = Inr [\<lparr>res_chunk = str ''zero'', res_source = str ''a.txt'', res_score = NaN\<rparr>,
             \<lparr>res_chunk = str ''one two'', res_source = str ''b.md'',
               res_score = Fin (1000000000000 / 1000000000001)\<rparr>]"
    by (simp add: query_defs demo_defs str_def)
  show ?thesis using i s q by (simp add: float_ge_def)
qed

end
